theory Spec2Isabelle
  imports Complex_Main "HOL-Library.Multiset" "HOL-Library.Word"
begin

section \<open>The quadtree of \<^verbatim>\<open>cpp_learning_1db0cc.cpp\<close>\<close>

text \<open>
  The source is a C++ class \<^verbatim>\<open>Quadtree\<close> over \<^verbatim>\<open>float\<close> rectangles. The embedding keeps the
  coordinate type a parameter \<open>'a\<close>. The operations that only compare and add
  (\<^verbatim>\<open>intersects\<close>, \<^verbatim>\<open>contains\<close>), halve (\<^verbatim>\<open>subdivide\<close>) and store (\<^verbatim>\<open>insert\<close>, \<^verbatim>\<open>query\<close>) are defined
  for every type that has \<open>+\<close>, \<open><\<close>, \<open>\<le>\<close>, \<open>/\<close> and \<open>1\<close>, with no law assumed about them, so
  a theorem stated at that sort holds whatever the arithmetic does, rounding included.
  Three coordinate types are used:
  \<^item> any linearly ordered field, that is exact arithmetic, for theorems about geometry;
  \<^item> \<open>rat\<close>, for the concrete runs: their inputs are such that every value computed is an
    integer below \<open>2^24\<close> or the half of one, so that \<^verbatim>\<open>float\<close> computes the same values;
  \<^item> \<open>binary32\<close>, a model of \<^verbatim>\<open>float\<close> with its rounding, where rounding decides.
\<close>

subsection \<open>Rect and GameObject\<close>

text \<open>
  \<^verbatim>\<open>struct Rect { float x, y, width, height; }\<close>. The fields \<^verbatim>\<open>x\<close> and \<^verbatim>\<open>y\<close> are named
  \<open>rx\<close> and \<open>ry\<close> here, so that \<open>x\<close> and \<open>y\<close> stay free for variables.
\<close>

record 'a Rect =
  rx :: 'a
  ry :: 'a
  width :: 'a
  height :: 'a

text \<open>\<^verbatim>\<open>Rect::contains\<close> (lines 24-27).\<close>

definition contains :: "'a::{plus,ord} Rect \<Rightarrow> 'a \<Rightarrow> 'a \<Rightarrow> bool" where
  "contains r px py \<longleftrightarrow>
     px \<ge> rx r \<and> px \<le> rx r + width r \<and>
     py \<ge> ry r \<and> py \<le> ry r + height r"

text \<open>\<^verbatim>\<open>Rect::intersects\<close> (lines 31-36); the receiver is the first argument.\<close>

definition intersects :: "'a::{plus,ord} Rect \<Rightarrow> 'a Rect \<Rightarrow> bool" where
  "intersects r other \<longleftrightarrow>
     \<not> (rx r + width r < rx other \<or>
        ry r + height r < ry other \<or>
        rx r > rx other + width other \<or>
        ry r > ry other + height other)"

text \<open>\<^verbatim>\<open>struct GameObject { int id; Rect bounds; }\<close>; the field \<^verbatim>\<open>id\<close> is named \<open>obj_id\<close>.\<close>

record 'a GameObject =
  obj_id :: int
  bounds :: "'a Rect"

text \<open>
  The tree stores \<^verbatim>\<open>GameObject*\<close>: a pointer is an address, and \<^verbatim>\<open>obj->bounds\<close> reads the
  caller's memory, which the tree never writes. The memory is a function from addresses
  to objects, passed to every operation that dereferences.
\<close>

type_synonym objptr = nat
type_synonym 'a heap = "objptr \<Rightarrow> 'a GameObject"

subsection \<open>The Quadtree class\<close>

text \<open>
  The members are \<^verbatim>\<open>boundary\<close>, \<^verbatim>\<open>capacity\<close>, \<^verbatim>\<open>objects\<close>, \<^verbatim>\<open>divided\<close> and \<^verbatim>\<open>children\<close> (lines 53-61).
  They are private, \<^verbatim>\<open>divided\<close> starts false with four null children, and only
  \<^verbatim>\<open>subdivide\<close> writes \<^verbatim>\<open>divided\<close> or \<^verbatim>\<open>children\<close>: it sets the flag and all four pointers together.
  So a node is either undivided with no child (\<open>Leaf\<close>) or divided with four children
  (\<open>Divided\<close>, \<open>child0\<close> to \<open>child3\<close> standing for \<^verbatim>\<open>children[0]\<close> to \<^verbatim>\<open>children[3]\<close>), and the
  flag \<^verbatim>\<open>divided\<close> is the test for the second form; ownership by \<^verbatim>\<open>unique_ptr\<close> makes the
  structure a tree.
\<close>

datatype 'a Quadtree =
    Leaf (boundary: "'a Rect") (capacity: "32 word") (objects: "objptr list")
  | divided: Divided (boundary: "'a Rect") (capacity: "32 word") (objects: "objptr list")
      (child0: "'a Quadtree") (child1: "'a Quadtree")
      (child2: "'a Quadtree") (child3: "'a Quadtree")

text \<open>The constructor \<^verbatim>\<open>Quadtree(Rect boundary, int capacity)\<close> (line 65).\<close>

definition new_Quadtree :: "'a Rect \<Rightarrow> 32 word \<Rightarrow> 'a Quadtree" where
  "new_Quadtree b c = Leaf b c []"

text \<open>
  \<^verbatim>\<open>subdivide\<close> (lines 68-81). The literal \<^verbatim>\<open>2\<close> is written \<open>1 + 1\<close>, which needs no law of
  addition to be a numeral. The method is public, so it is defined on a divided node
  too: there the four children are replaced by fresh empty ones.
\<close>

definition subdivide :: "'a::{plus,inverse,one} Quadtree \<Rightarrow> 'a Quadtree" where
  "subdivide t =
     (let subWidth = width (boundary t) / (1 + 1);
          subHeight = height (boundary t) / (1 + 1);
          x = rx (boundary t);
          y = ry (boundary t)
      in Divided (boundary t) (capacity t) (objects t)
           (new_Quadtree \<lparr>rx = x + subWidth, ry = y, width = subWidth, height = subHeight\<rparr> (capacity t))
           (new_Quadtree \<lparr>rx = x, ry = y, width = subWidth, height = subHeight\<rparr> (capacity t))
           (new_Quadtree \<lparr>rx = x + subWidth, ry = y + subHeight, width = subWidth, height = subHeight\<rparr> (capacity t))
           (new_Quadtree \<lparr>rx = x, ry = y + subHeight, width = subWidth, height = subHeight\<rparr> (capacity t)))"

text \<open>
  \<^verbatim>\<open>capacity\<close> is an \<^verbatim>\<open>int\<close>: a 32-bit word read as signed. The test
  \<^verbatim>\<open>objects.size() < capacity\<close> (line 92) compares a \<^verbatim>\<open>size_t\<close> with an \<^verbatim>\<open>int\<close>: the \<^verbatim>\<open>int\<close> is
  converted to \<^verbatim>\<open>size_t\<close> (64 bits, the value modulo \<open>2^64\<close>), so a negative capacity counts
  as a huge one.
\<close>

definition capacity_as_size_t :: "32 word \<Rightarrow> int" where
  "capacity_as_size_t c = sint c mod 2 ^ 64"

definition size_lt_capacity :: "nat \<Rightarrow> 32 word \<Rightarrow> bool" where
  "size_lt_capacity n c \<longleftrightarrow> int n < capacity_as_size_t c"

text \<open>\<^verbatim>\<open>objects.push_back(obj)\<close> on the node itself.\<close>

fun push_back :: "'a Quadtree \<Rightarrow> objptr \<Rightarrow> 'a Quadtree" where
  "push_back (Leaf b c os) p = Leaf b c (os @ [p])"
| "push_back (Divided b c os c0 c1 c2 c3) p = Divided b c (os @ [p]) c0 c1 c2 c3"

text \<open>
  \<^verbatim>\<open>insert\<close> (lines 85-116). The method mutates the node and returns a \<^verbatim>\<open>bool\<close>; the model
  returns the flag with the node as it is after the call. The recursion into freshly
  made children need not end (capacity 0), so the function is partial: \<open>None\<close> is a call
  that never returns. The loop over the four children is unrolled; each child is
  written back as its call left it, also when the call returned false.
\<close>

partial_function (option) insert_qt ::
  "'a::{plus,ord,inverse,one} heap \<Rightarrow> 'a Quadtree \<Rightarrow> objptr \<Rightarrow> (bool \<times> 'a Quadtree) option" where
  "insert_qt h t obj =
     (if \<not> intersects (boundary t) (bounds (h obj)) then Some (False, t)
      else if size_lt_capacity (length (objects t)) (capacity t) \<and> \<not> divided t
        then Some (True, push_back t obj)
      else
        (let t1 = (if \<not> divided t then subdivide t else t);
             b = boundary t1; c = capacity t1; os = objects t1
         in Option.bind (insert_qt h (child0 t1) obj) (\<lambda>(r0, c0).
              if r0 then Some (True, Divided b c os c0 (child1 t1) (child2 t1) (child3 t1))
              else Option.bind (insert_qt h (child1 t1) obj) (\<lambda>(r1, c1).
              if r1 then Some (True, Divided b c os c0 c1 (child2 t1) (child3 t1))
              else Option.bind (insert_qt h (child2 t1) obj) (\<lambda>(r2, c2).
              if r2 then Some (True, Divided b c os c0 c1 c2 (child3 t1))
              else Option.bind (insert_qt h (child3 t1) obj) (\<lambda>(r3, c3).
              if r3 then Some (True, Divided b c os c0 c1 c2 c3)
              else Some (True, Divided b c (os @ [obj]) c0 c1 c2 c3)))))))"

text \<open>
  \<^verbatim>\<open>query\<close> (lines 120-139). \<^verbatim>\<open>found\<close> is an output parameter that the method appends to;
  the model takes it and returns it extended. The parameter \<^verbatim>\<open>range\<close> is written \<open>rng\<close>, and
  the loop over \<^verbatim>\<open>objects\<close> is a left fold.
\<close>

definition query_objects :: "'a::{plus,ord} heap \<Rightarrow> 'a Rect \<Rightarrow> objptr list \<Rightarrow> objptr list \<Rightarrow> objptr list" where
  "query_objects h rng os found =
     foldl (\<lambda>f obj. if intersects rng (bounds (h obj)) then f @ [obj] else f) found os"

fun query :: "'a::{plus,ord} heap \<Rightarrow> 'a Quadtree \<Rightarrow> 'a Rect \<Rightarrow> objptr list \<Rightarrow> objptr list" where
  "query h (Leaf b c os) rng found =
     (if \<not> intersects b rng then found
      else query_objects h rng os found)"
| "query h (Divided b c os c0 c1 c2 c3) rng found =
     (if \<not> intersects b rng then found
      else query h c3 rng (query h c2 rng (query h c1 rng (query h c0 rng
             (query_objects h rng os found)))))"

text \<open>
  A caller that inserts a list of objects one after the other and ignores the flags, as
  \<^verbatim>\<open>main\<close> does (lines 165-172).
\<close>

fun insert_all :: "'a::{plus,ord,inverse,one} heap \<Rightarrow> 'a Quadtree \<Rightarrow> objptr list \<Rightarrow> 'a Quadtree option" where
  "insert_all h t [] = Some t"
| "insert_all h t (obj # objs) =
     (case insert_qt h t obj of None \<Rightarrow> None | Some (r, t') \<Rightarrow> insert_all h t' objs)"

subsection \<open>What a tree holds\<close>

text \<open>
  The pointers of every direct list of the subtree, the node's own list first, then the
  children in the order of the array. An object stored twice is listed twice.
\<close>

fun all_objects :: "'a Quadtree \<Rightarrow> objptr list" where
  "all_objects (Leaf b c os) = os"
| "all_objects (Divided b c os c0 c1 c2 c3) =
     os @ all_objects c0 @ all_objects c1 @ all_objects c2 @ all_objects c3"

text \<open>The capacities of the nodes of a subtree.\<close>

fun capacities :: "'a Quadtree \<Rightarrow> 32 word set" where
  "capacities (Leaf b c os) = {c}"
| "capacities (Divided b c os c0 c1 c2 c3) =
     {c} \<union> capacities c0 \<union> capacities c1 \<union> capacities c2 \<union> capacities c3"

text \<open>
  Every undivided node of the subtree holds at most \<^verbatim>\<open>capacity\<close> objects, the capacity being
  the signed \<^verbatim>\<open>int\<close> that the member is.
\<close>

fun leaves_within_capacity :: "'a Quadtree \<Rightarrow> bool" where
  "leaves_within_capacity (Leaf b c os) \<longleftrightarrow> int (length os) \<le> sint c"
| "leaves_within_capacity (Divided b c os c0 c1 c2 c3) \<longleftrightarrow>
     leaves_within_capacity c0 \<and> leaves_within_capacity c1 \<and>
     leaves_within_capacity c2 \<and> leaves_within_capacity c3"

text \<open>A rectangle of non-negative width and height.\<close>

definition well_formed :: "'a::{zero,ord} Rect \<Rightarrow> bool" where
  "well_formed r \<longleftrightarrow> 0 \<le> width r \<and> 0 \<le> height r"

subsection \<open>The run of \<^verbatim>\<open>main\<close>\<close>

text \<open>
  \<^verbatim>\<open>worldBoundary\<close> (line 146), the eight objects \<^verbatim>\<open>obj1\<close> to \<^verbatim>\<open>obj8\<close> (lines 155-162), address
  \<open>k\<close> standing for \<^verbatim>\<open>&objk\<close>, and the two query rectangles (lines 176 and 197).
\<close>

definition worldBoundary :: "rat Rect" where
  "worldBoundary = \<lparr>rx = 0, ry = 0, width = 800, height = 600\<rparr>"

definition main_objects :: "rat heap" where
  "main_objects p =
     (if p = 1 then \<lparr>obj_id = 1, bounds = \<lparr>rx = 10, ry = 10, width = 20, height = 20\<rparr>\<rparr>
      else if p = 2 then \<lparr>obj_id = 2, bounds = \<lparr>rx = 700, ry = 50, width = 30, height = 30\<rparr>\<rparr>
      else if p = 3 then \<lparr>obj_id = 3, bounds = \<lparr>rx = 50, ry = 500, width = 40, height = 40\<rparr>\<rparr>
      else if p = 4 then \<lparr>obj_id = 4, bounds = \<lparr>rx = 300, ry = 250, width = 50, height = 50\<rparr>\<rparr>
      else if p = 5 then \<lparr>obj_id = 5, bounds = \<lparr>rx = 320, ry = 270, width = 10, height = 10\<rparr>\<rparr>
      else if p = 6 then \<lparr>obj_id = 6, bounds = \<lparr>rx = 150, ry = 150, width = 60, height = 60\<rparr>\<rparr>
      else if p = 7 then \<lparr>obj_id = 7, bounds = \<lparr>rx = 380, ry = 290, width = 20, height = 20\<rparr>\<rparr>
      else \<lparr>obj_id = 8, bounds = \<lparr>rx = 750, ry = 550, width = 10, height = 10\<rparr>\<rparr>)"

definition queryRange :: "rat Rect" where
  "queryRange = \<lparr>rx = 280, ry = 200, width = 100, height = 100\<rparr>"

definition playerView :: "rat Rect" where
  "playerView = \<lparr>rx = 0, ry = 0, width = 100, height = 100\<rparr>"

text \<open>The tree that the eight inserts of \<^verbatim>\<open>main\<close> build (lemma \<open>main_inserts\<close> below).\<close>

definition main_tree :: "rat Quadtree" where
  "main_tree = Divided worldBoundary 4 [1, 2, 3, 4]
     (Leaf \<lparr>rx = 400, ry = 0, width = 400, height = 300\<rparr> 4 [7])
     (Leaf \<lparr>rx = 0, ry = 0, width = 400, height = 300\<rparr> 4 [5, 6])
     (Leaf \<lparr>rx = 400, ry = 300, width = 400, height = 300\<rparr> 4 [8])
     (Leaf \<lparr>rx = 0, ry = 300, width = 400, height = 300\<rparr> 4 [])"

subsection \<open>Two further runs\<close>

text \<open>
  Two objects in a world of 100 by 100: the second one lies across the line \<open>x = 50\<close>
  that separates the west quadrants from the east ones.
\<close>

definition two_objects :: "rat heap" where
  "two_objects p =
     (if p = 1 then \<lparr>obj_id = 1, bounds = \<lparr>rx = 10, ry = 10, width = 5, height = 5\<rparr>\<rparr>
      else \<lparr>obj_id = 2, bounds = \<lparr>rx = 40, ry = 10, width = 20, height = 10\<rparr>\<rparr>)"

definition small_world :: "rat Rect" where
  "small_world = \<lparr>rx = 0, ry = 0, width = 100, height = 100\<rparr>"

text \<open>
  A memory in which every address holds a rectangle of negative width, anchored right of
  the line \<open>x = 400\<close> and reaching left of it.
\<close>

definition negative_width_objects :: "rat heap" where
  "negative_width_objects p =
     \<lparr>obj_id = int p, bounds = \<lparr>rx = 410, ry = 10, width = - 20, height = 10\<rparr>\<rparr>"

text \<open>A memory in which every address holds a 10 by 10 object in the corner \<open>(0,0)\<close>.\<close>

definition corner_objects :: "rat heap" where
  "corner_objects p = \<lparr>obj_id = int p, bounds = \<lparr>rx = 0, ry = 0, width = 10, height = 10\<rparr>\<rparr>"

subsection \<open>The type \<^verbatim>\<open>float\<close>\<close>

text \<open>
  \<^verbatim>\<open>float\<close> is IEEE 754 binary32. The model has its finite values and its default rounding:
  a significand of 24 bits, to nearest, ties to the even significand, and an exponent
  of at least \<open>-126\<close> (below, the spacing stays \<open>2^-149\<close>). Infinities, NaN, the sign of zero
  and overflow beyond \<open>2^128\<close> are not modelled.

  \<open>binade n r\<close> is the exponent \<open>e\<close> with \<open>2^e \<le> r < 2^(e+1)\<close> of a positive \<open>r\<close>, found in at
  most \<open>n\<close> steps; 300 steps reach every exponent of binary32.
\<close>

definition round_half_even :: "rat \<Rightarrow> int" where
  "round_half_even q =
     (let f = \<lfloor>q\<rfloor>; d = q - of_int f
      in if d < 1 / 2 then f else if 1 / 2 < d then f + 1 else if even f then f else f + 1)"

fun binade :: "nat \<Rightarrow> rat \<Rightarrow> int" where
  "binade 0 r = 0"
| "binade (Suc n) r =
     (if 2 \<le> r then binade n (r / 2) + 1 else if r < 1 then binade n (r * 2) - 1 else 0)"

definition round32 :: "rat \<Rightarrow> rat" where
  "round32 r =
     (if r = 0 then 0
      else let e = max (binade 300 \<bar>r\<bar>) (- 126); u = 2 powi (e - 23)
           in of_int (round_half_even (r / u)) * u)"

text \<open>A \<^verbatim>\<open>float\<close> is a rounded rational; \<open>val\<close> is its value and \<open>fl\<close> rounds a rational to it.\<close>

typedef binary32 = "range round32"
  morphisms val Abs_binary32
  by blast

definition fl :: "rat \<Rightarrow> binary32" where
  "fl r = Abs_binary32 (round32 r)"

text \<open>
  The operations of \<^verbatim>\<open>float\<close> that the source uses: \<^verbatim>\<open>+\<close> and \<^verbatim>\<open>/\<close> compute exactly and round,
  the comparisons compare the values, and the literal \<^verbatim>\<open>1\<close> is itself.
\<close>

instantiation binary32 :: "{plus,ord,inverse,one}"
begin

definition plus_binary32 :: "binary32 \<Rightarrow> binary32 \<Rightarrow> binary32" where
  "plus_binary32 a b = fl (val a + val b)"

definition less_eq_binary32 :: "binary32 \<Rightarrow> binary32 \<Rightarrow> bool" where
  "less_eq_binary32 a b \<longleftrightarrow> val a \<le> val b"

definition less_binary32 :: "binary32 \<Rightarrow> binary32 \<Rightarrow> bool" where
  "less_binary32 a b \<longleftrightarrow> val a < val b"

definition divide_binary32 :: "binary32 \<Rightarrow> binary32 \<Rightarrow> binary32" where
  "divide_binary32 a b = fl (val a / val b)"

definition inverse_binary32 :: "binary32 \<Rightarrow> binary32" where
  "inverse_binary32 a = fl (1 / val a)"

definition one_binary32 :: binary32 where
  "one_binary32 = fl 1"

instance ..

end

text \<open>A node of 1 by 1 at \<open>x = 2^23\<close>, where consecutive \<^verbatim>\<open>float\<close> values are 1 apart.\<close>

definition unit_node :: "binary32 Quadtree" where
  "unit_node = new_Quadtree \<lparr>rx = fl 8388608, ry = fl 0, width = fl 1, height = fl 1\<rparr> 4"

text \<open>
  A memory in which every address holds a 1 by 1 object at \<open>x = 2^23 + 1\<close>, on the right
  edge of that node.
\<close>

definition edge_objects :: "binary32 heap" where
  "edge_objects p =
     \<lparr>obj_id = int p, bounds = \<lparr>rx = fl 8388609, ry = fl 0, width = fl 1, height = fl 1\<rparr>\<rparr>"

section \<open>Unfolding \<^verbatim>\<open>insert\<close>\<close>

lemma insert_qt_miss:
  "\<not> intersects (boundary t) (bounds (h p)) \<Longrightarrow> insert_qt h t p = Some (False, t)"
  by (subst insert_qt.simps) simp

lemma insert_qt_leaf_room:
  "intersects b (bounds (h p)) \<Longrightarrow> size_lt_capacity (length os) c \<Longrightarrow>
   insert_qt h (Leaf b c os) p = Some (True, Leaf b c (os @ [p]))"
  by (subst insert_qt.simps) simp

lemma insert_qt_divided:
  "intersects b (bounds (h p)) \<Longrightarrow>
   insert_qt h (Divided b c os c0 c1 c2 c3) p =
     Option.bind (insert_qt h c0 p) (\<lambda>(r0, c0').
       if r0 then Some (True, Divided b c os c0' c1 c2 c3)
       else Option.bind (insert_qt h c1 p) (\<lambda>(r1, c1').
       if r1 then Some (True, Divided b c os c0' c1' c2 c3)
       else Option.bind (insert_qt h c2 p) (\<lambda>(r2, c2').
       if r2 then Some (True, Divided b c os c0' c1' c2' c3)
       else Option.bind (insert_qt h c3 p) (\<lambda>(r3, c3').
       if r3 then Some (True, Divided b c os c0' c1' c2' c3')
       else Some (True, Divided b c (os @ [p]) c0' c1' c2' c3')))))"
  by (subst insert_qt.simps) (simp add: Let_def cong: if_cong)

lemma insert_qt_leaf_full:
  "intersects b (bounds (h p)) \<Longrightarrow> \<not> size_lt_capacity (length os) c \<Longrightarrow>
   insert_qt h (Leaf b c os) p = insert_qt h (subdivide (Leaf b c os)) p"
  apply (subst insert_qt.simps)
  apply (subst (5) insert_qt.simps)
  apply (simp add: Let_def subdivide_def)
  done

lemmas run_simps = insert_qt_miss insert_qt_leaf_room insert_qt_leaf_full insert_qt_divided
  intersects_def size_lt_capacity_def capacity_as_size_t_def subdivide_def new_Quadtree_def
  Let_def query_objects_def

section \<open>The run of \<^verbatim>\<open>main\<close>, evaluated\<close>

lemma main_inserts:
  "insert_all main_objects (new_Quadtree worldBoundary 4) [1, 2, 3, 4, 5, 6, 7, 8] = Some main_tree"
  by (simp add: run_simps main_objects_def worldBoundary_def main_tree_def)

lemma main_queryRange: "query main_objects main_tree queryRange [] = [4, 5]"
  by (simp add: run_simps main_objects_def worldBoundary_def main_tree_def queryRange_def)

lemma main_playerView: "query main_objects main_tree playerView [] = [1]"
  by (simp add: run_simps main_objects_def worldBoundary_def main_tree_def playerView_def)

text \<open>
  C2. The scenario of \<^verbatim>\<open>main\<close>: boundary \<open>{0,0,800,600}\<close>, capacity 4, the eight objects
  inserted in order. The specification expects the query of \<open>{280,200,100,100}\<close> to return the
  objects 4, 5 and 7. The code returns 4 and 5 only: object 7, \<open>{380,290,20,20}\<close>, touches
  the query rectangle at \<open>x = 380\<close>, so it intersects it, but the seventh insert gave it
  to \<^verbatim>\<open>children[0]\<close> (north-east, \<open>{400,0,400,300}\<close>, which it touches at \<open>x = 400\<close>), and the
  query prunes that child because \<open>400 > 280 + 100\<close>. The query of \<open>{0,0,100,100}\<close> returns
  object 1 alone, as specified.
\<close>

theorem main_scenario_misses_object_7:
  "insert_all main_objects (new_Quadtree worldBoundary 4) [1, 2, 3, 4, 5, 6, 7, 8] = Some main_tree
   \<and> map (\<lambda>p. obj_id (main_objects p)) (query main_objects main_tree queryRange []) = [4, 5]
   \<and> intersects queryRange (bounds (main_objects 7))
   \<and> intersects (bounds (main_objects 7)) queryRange
   \<and> map (\<lambda>p. obj_id (main_objects p)) (query main_objects main_tree playerView []) = [1]"
proof -
  have "map (\<lambda>p. obj_id (main_objects p)) [4, 5] = [4, 5]"
    and "map (\<lambda>p. obj_id (main_objects p)) [1] = [1]"
    by (simp_all add: main_objects_def)
  moreover have "intersects queryRange (bounds (main_objects 7))"
    and "intersects (bounds (main_objects 7)) queryRange"
    by (simp_all add: intersects_def main_objects_def queryRange_def)
  ultimately show ?thesis
    by (simp only: main_inserts main_queryRange main_playerView simp_thms)
qed

section \<open>Query\<close>

lemma intersects_commute: "intersects a b = intersects b a"
  by (auto simp: intersects_def)

lemma query_objects_filter:
  "query_objects h R os found = found @ filter (\<lambda>p. intersects R (bounds (h p))) os"
  unfolding query_objects_def
  by (induction os arbitrary: found) simp_all

lemma query_found: "query h t R found = found @ query h t R []"
proof (induction t arbitrary: found)
  case (Leaf b c os)
  show ?case by (simp add: query_objects_filter)
next
  case (Divided b c os c0 c1 c2 c3)
  show ?case
    apply (simp add: query_objects_filter)
    apply (subst Divided.IH(4))
    apply (subst Divided.IH(3))
    apply (subst Divided.IH(2))
    apply (subst Divided.IH(1))
    apply (subst (2) Divided.IH(4))
    apply (subst (2) Divided.IH(3))
    apply (subst (2) Divided.IH(2))
    apply (subst (2) Divided.IH(1))
    apply simp
    done
qed

lemma query_Divided:
  "query h (Divided b c os c0 c1 c2 c3) R [] =
     (if \<not> intersects b R then []
      else filter (\<lambda>p. intersects R (bounds (h p))) os @ query h c0 R [] @ query h c1 R []
             @ query h c2 R [] @ query h c3 R [])"
  apply (simp add: query_objects_filter)
  apply (subst query_found)
  apply (subst query_found [of h c2])
  apply (subst query_found [of h c1])
  apply (subst query_found [of h c0])
  apply simp
  done

lemma query_pruned: "\<not> intersects (boundary t) R \<Longrightarrow> query h t R found = found"
  by (cases t) simp_all

lemma query_sound:
  "p \<in> set (query h t R []) \<Longrightarrow> p \<in> set (all_objects t) \<and> intersects R (bounds (h p))"
proof (induction t)
  case (Leaf b c os)
  then show ?case by (auto simp: query_objects_filter split: if_splits)
next
  case (Divided b c os c0 c1 c2 c3)
  from Divided.prems show ?case
    unfolding query_Divided using Divided.IH by (auto split: if_splits)
qed

lemma query_mset: "mset (query h t R []) \<subseteq># mset (all_objects t)"
proof (induction t)
  case (Leaf b c os)
  show ?case by (simp add: query_objects_filter)
next
  case (Divided b c os c0 c1 c2 c3)
  show ?case
  proof (cases "intersects b R")
    case False
    then show ?thesis unfolding query_Divided by simp
  next
    case True
    have "mset (filter (\<lambda>p. intersects R (bounds (h p))) os) \<subseteq># mset os" by simp
    then have "mset (filter (\<lambda>p. intersects R (bounds (h p))) os) + mset (query h c0 R [])
        + mset (query h c1 R []) + mset (query h c2 R []) + mset (query h c3 R [])
      \<subseteq># mset os + mset (all_objects c0) + mset (all_objects c1) + mset (all_objects c2)
        + mset (all_objects c3)"
      by (intro subset_mset.add_mono Divided.IH)
    with True show ?thesis unfolding query_Divided by (simp add: add.assoc)
  qed
qed

lemma distinct_count_le_1: "distinct xs \<longleftrightarrow> (\<forall>a. count (mset xs) a \<le> 1)"
proof (induction xs)
  case Nil
  show ?case by simp
next
  case (Cons x xs)
  have "(\<forall>a. count (mset (x # xs)) a \<le> 1) \<longleftrightarrow>
        count (mset xs) x = 0 \<and> (\<forall>a. count (mset xs) a \<le> 1)"
  proof
    assume L: "\<forall>a. count (mset (x # xs)) a \<le> 1"
    from L [rule_format, of x] have zero: "count (mset xs) x = 0" by simp
    have "count (mset xs) a \<le> 1" for a
    proof (cases "a = x")
      case True
      with zero show ?thesis by (simp only:)
    next
      case False
      with L [rule_format, of a] show ?thesis by simp
    qed
    with zero show "count (mset xs) x = 0 \<and> (\<forall>a. count (mset xs) a \<le> 1)" by blast
  next
    assume R: "count (mset xs) x = 0 \<and> (\<forall>a. count (mset xs) a \<le> 1)"
    then show "\<forall>a. count (mset (x # xs)) a \<le> 1" by simp
  qed
  moreover have "count (mset xs) x = 0 \<longleftrightarrow> x \<notin> set xs"
    by (simp add: count_eq_zero_iff)
  ultimately show ?case using Cons.IH by simp
qed

lemma distinct_subseteq_mset:
  assumes "mset xs \<subseteq># mset ys" and "distinct ys"
  shows "distinct xs"
proof -
  have "count (mset xs) a \<le> 1" for a
  proof -
    have "count (mset xs) a \<le> count (mset ys) a"
      using assms(1) by (rule mset_subset_eq_count)
    also have "\<dots> \<le> 1" using assms(2) by (simp add: distinct_count_le_1)
    finally show ?thesis .
  qed
  then show ?thesis by (simp add: distinct_count_le_1)
qed

lemma distinct_query: "distinct (all_objects t) \<Longrightarrow> distinct (query h t R [])"
  using query_mset [of h t R] by (rule distinct_subseteq_mset)

section \<open>One step of insert\<close>

lemma all_objects_divided:
  "divided t \<Longrightarrow> all_objects t = objects t @ all_objects (child0 t) @ all_objects (child1 t)
     @ all_objects (child2 t) @ all_objects (child3 t)"
  by (cases t) simp_all

lemma subdivide_sel:
  "divided (subdivide t)" "boundary (subdivide t) = boundary t"
  "capacity (subdivide t) = capacity t" "objects (subdivide t) = objects t"
  by (simp_all add: subdivide_def Let_def)

lemma all_objects_subdivide: "all_objects (subdivide t) = objects t"
  by (simp add: subdivide_def Let_def new_Quadtree_def)

lemma insert_body_cases:
  fixes f :: "'a::{plus,ord,inverse,one} heap \<Rightarrow> 'a Quadtree \<Rightarrow> objptr \<Rightarrow> (bool \<times> 'a Quadtree) option"
  assumes "(if \<not> intersects (boundary t) (bounds (h p)) then Some (False, t)
      else if size_lt_capacity (length (objects t)) (capacity t) \<and> \<not> divided t
        then Some (True, push_back t p)
      else
        (let t1 = (if \<not> divided t then subdivide t else t);
             b = boundary t1; c = capacity t1; os = objects t1
         in Option.bind (f h (child0 t1) p) (\<lambda>(r0, c0).
              if r0 then Some (True, Divided b c os c0 (child1 t1) (child2 t1) (child3 t1))
              else Option.bind (f h (child1 t1) p) (\<lambda>(r1, c1).
              if r1 then Some (True, Divided b c os c0 c1 (child2 t1) (child3 t1))
              else Option.bind (f h (child2 t1) p) (\<lambda>(r2, c2).
              if r2 then Some (True, Divided b c os c0 c1 c2 (child3 t1))
              else Option.bind (f h (child3 t1) p) (\<lambda>(r3, c3).
              if r3 then Some (True, Divided b c os c0 c1 c2 c3)
              else Some (True, Divided b c (os @ [p]) c0 c1 c2 c3))))))) = Some y"
  obtains
    (miss) "\<not> intersects (boundary t) (bounds (h p))" "y = (False, t)"
  | (room) b c os where "intersects (boundary t) (bounds (h p))" "t = Leaf b c os"
      "size_lt_capacity (length os) c" "y = (True, Leaf b c (os @ [p]))"
  | (claim0) t1 c0' where "intersects (boundary t) (bounds (h p))"
      "t1 = (if \<not> divided t then subdivide t else t)"
      "\<not> (size_lt_capacity (length (objects t)) (capacity t) \<and> \<not> divided t)"
      "f h (child0 t1) p = Some (True, c0')"
      "y = (True, Divided (boundary t) (capacity t) (objects t) c0' (child1 t1) (child2 t1) (child3 t1))"
  | (claim1) t1 c0' c1' where "intersects (boundary t) (bounds (h p))"
      "t1 = (if \<not> divided t then subdivide t else t)"
      "\<not> (size_lt_capacity (length (objects t)) (capacity t) \<and> \<not> divided t)"
      "f h (child0 t1) p = Some (False, c0')" "f h (child1 t1) p = Some (True, c1')"
      "y = (True, Divided (boundary t) (capacity t) (objects t) c0' c1' (child2 t1) (child3 t1))"
  | (claim2) t1 c0' c1' c2' where "intersects (boundary t) (bounds (h p))"
      "t1 = (if \<not> divided t then subdivide t else t)"
      "\<not> (size_lt_capacity (length (objects t)) (capacity t) \<and> \<not> divided t)"
      "f h (child0 t1) p = Some (False, c0')" "f h (child1 t1) p = Some (False, c1')"
      "f h (child2 t1) p = Some (True, c2')"
      "y = (True, Divided (boundary t) (capacity t) (objects t) c0' c1' c2' (child3 t1))"
  | (claim3) t1 c0' c1' c2' c3' where "intersects (boundary t) (bounds (h p))"
      "t1 = (if \<not> divided t then subdivide t else t)"
      "\<not> (size_lt_capacity (length (objects t)) (capacity t) \<and> \<not> divided t)"
      "f h (child0 t1) p = Some (False, c0')" "f h (child1 t1) p = Some (False, c1')"
      "f h (child2 t1) p = Some (False, c2')" "f h (child3 t1) p = Some (True, c3')"
      "y = (True, Divided (boundary t) (capacity t) (objects t) c0' c1' c2' c3')"
  | (fallback) t1 c0' c1' c2' c3' where "intersects (boundary t) (bounds (h p))"
      "t1 = (if \<not> divided t then subdivide t else t)"
      "\<not> (size_lt_capacity (length (objects t)) (capacity t) \<and> \<not> divided t)"
      "f h (child0 t1) p = Some (False, c0')" "f h (child1 t1) p = Some (False, c1')"
      "f h (child2 t1) p = Some (False, c2')" "f h (child3 t1) p = Some (False, c3')"
      "y = (True, Divided (boundary t) (capacity t) (objects t @ [p]) c0' c1' c2' c3')"
proof (cases "intersects (boundary t) (bounds (h p))")
  case False
  with assms show thesis by (intro miss) auto
next
  case I: True
  show thesis
  proof (cases "size_lt_capacity (length (objects t)) (capacity t) \<and> \<not> divided t")
    case True
    then obtain b c os where t: "t = Leaf b c os" by (cases t) auto
    with True I assms show thesis by (intro room [of b c os]) auto
  next
    case full: False
    define t1 where "t1 = (if \<not> divided t then subdivide t else t)"
    have sel: "boundary t1 = boundary t" "capacity t1 = capacity t" "objects t1 = objects t"
      unfolding t1_def by (simp_all add: subdivide_sel)
    from assms I full have chain: "Option.bind (f h (child0 t1) p) (\<lambda>(r0, c0').
        if r0 then Some (True, Divided (boundary t1) (capacity t1) (objects t1) c0' (child1 t1) (child2 t1) (child3 t1))
        else Option.bind (f h (child1 t1) p) (\<lambda>(r1, c1').
        if r1 then Some (True, Divided (boundary t1) (capacity t1) (objects t1) c0' c1' (child2 t1) (child3 t1))
        else Option.bind (f h (child2 t1) p) (\<lambda>(r2, c2').
        if r2 then Some (True, Divided (boundary t1) (capacity t1) (objects t1) c0' c1' c2' (child3 t1))
        else Option.bind (f h (child3 t1) p) (\<lambda>(r3, c3').
        if r3 then Some (True, Divided (boundary t1) (capacity t1) (objects t1) c0' c1' c2' c3')
        else Some (True, Divided (boundary t1) (capacity t1) (objects t1 @ [p]) c0' c1' c2' c3'))))) = Some y"
      unfolding t1_def Let_def by (simp cong: if_cong)
    from chain obtain r0 c0' where g0: "f h (child0 t1) p = Some (r0, c0')"
      by (cases "f h (child0 t1) p") auto
    show thesis
    proof (cases r0)
      case True
      with chain g0 sel show thesis by (intro claim0 [OF I t1_def full, of c0']) auto
    next
      case r0: False
      with chain g0 obtain r1 c1' where g1: "f h (child1 t1) p = Some (r1, c1')"
        by (cases "f h (child1 t1) p") auto
      show thesis
      proof (cases r1)
        case True
        with chain g0 r0 g1 sel show thesis by (intro claim1 [OF I t1_def full, of c0' c1']) auto
      next
        case r1: False
        with chain g0 r0 g1 obtain r2 c2' where g2: "f h (child2 t1) p = Some (r2, c2')"
          by (cases "f h (child2 t1) p") auto
        show thesis
        proof (cases r2)
          case True
          with chain g0 r0 g1 r1 g2 sel show thesis
            by (intro claim2 [OF I t1_def full, of c0' c1' c2']) auto
        next
          case r2: False
          with chain g0 r0 g1 r1 g2 obtain r3 c3' where g3: "f h (child3 t1) p = Some (r3, c3')"
            by (cases "f h (child3 t1) p") auto
          show thesis
          proof (cases r3)
            case True
            with chain g0 r0 g1 r1 g2 r2 g3 sel show thesis
              by (intro claim3 [OF I t1_def full, of c0' c1' c2' c3']) auto
          next
            case False
            with chain g0 r0 g1 r1 g2 r2 g3 sel show thesis
              by (intro fallback [OF I t1_def full, of c0' c1' c2' c3']) auto
          qed
        qed
      qed
    qed
  qed
qed

lemma ensure_divided:
  assumes "t1 = (if \<not> divided t then subdivide t else t)"
  shows "divided t1" and "boundary t1 = boundary t" and "capacity t1 = capacity t"
    and "objects t1 = objects t" and "all_objects t1 = all_objects t"
    and "all_objects t = objects t @ all_objects (child0 t1) @ all_objects (child1 t1)
         @ all_objects (child2 t1) @ all_objects (child3 t1)"
    and "leaves_within_capacity t \<longrightarrow> leaves_within_capacity t1"
proof -
  show d: "divided t1" and "boundary t1 = boundary t" and "capacity t1 = capacity t"
    and "objects t1 = objects t"
    unfolding assms by (simp_all add: subdivide_sel)
  show a: "all_objects t1 = all_objects t"
    unfolding assms by (cases t) (simp_all add: all_objects_subdivide)
  from all_objects_divided [OF d] a \<open>objects t1 = objects t\<close>
  show "all_objects t = objects t @ all_objects (child0 t1) @ all_objects (child1 t1)
         @ all_objects (child2 t1) @ all_objects (child3 t1)" by simp
  show "leaves_within_capacity t \<longrightarrow> leaves_within_capacity t1"
    unfolding assms
    by (cases t) (simp_all add: subdivide_def Let_def new_Quadtree_def)
qed

lemma capacity_as_size_t_nonneg: "0 \<le> sint c \<Longrightarrow> capacity_as_size_t c = sint c"
proof -
  assume "0 \<le> sint c"
  moreover have "sint c < 2 ^ 64"
    using sint_lt [of c] by (simp add: order_less_trans [where y = "2 ^ 31"])
  ultimately show ?thesis by (simp add: capacity_as_size_t_def mod_pos_pos_trivial)
qed

lemma leaves_within_capacity_divided:
  "divided t \<Longrightarrow> leaves_within_capacity t \<longleftrightarrow>
     leaves_within_capacity (child0 t) \<and> leaves_within_capacity (child1 t) \<and>
     leaves_within_capacity (child2 t) \<and> leaves_within_capacity (child3 t)"
  by (cases t) simp_all

lemma insert_qt_post:
  assumes "insert_qt h t p = Some y"
  shows "(fst y \<longleftrightarrow> intersects (boundary t) (bounds (h p))) \<and>
         (\<not> fst y \<longrightarrow> snd y = t) \<and>
         boundary (snd y) = boundary t \<and> capacity (snd y) = capacity t \<and>
         (divided t \<longrightarrow> divided (snd y)) \<and>
         mset (all_objects (snd y)) = mset (all_objects t) + (if fst y then {#p#} else {#}) \<and>
         (leaves_within_capacity t \<longrightarrow> leaves_within_capacity (snd y))"
proof (rule insert_qt.raw_induct [where P = "\<lambda>h t p y.
         (fst y \<longleftrightarrow> intersects (boundary t) (bounds (h p))) \<and>
         (\<not> fst y \<longrightarrow> snd y = t) \<and>
         boundary (snd y) = boundary t \<and> capacity (snd y) = capacity t \<and>
         (divided t \<longrightarrow> divided (snd y)) \<and>
         mset (all_objects (snd y)) = mset (all_objects t) + (if fst y then {#p#} else {#}) \<and>
         (leaves_within_capacity t \<longrightarrow> leaves_within_capacity (snd y))",
       OF _ assms], goal_cases)
  case (1 f h t p y)
  note IH = 1(1)
  from 1(2) show ?case
  proof (cases rule: insert_body_cases)
    case miss
    then show ?thesis by simp
  next
    case (room b c os)
    have "int (length os) + 1 \<le> sint c" if "int (length os) \<le> sint c"
    proof -
      from that have "0 \<le> sint c" by simp
      from capacity_as_size_t_nonneg [OF this] room(3) show ?thesis
        by (simp add: size_lt_capacity_def)
    qed
    with room show ?thesis by auto
  next
    case (claim0 t1 c0')
    note e = ensure_divided [OF claim0(2)]
    from IH [OF claim0(4)] claim0(1,5) e(6) e(7) leaves_within_capacity_divided [OF e(1)]
    show ?thesis by (cases "divided t") auto
  next
    case (claim1 t1 c0' c1')
    note e = ensure_divided [OF claim1(2)]
    from IH [OF claim1(4)] IH [OF claim1(5)] claim1(1,6) e(6) e(7)
      leaves_within_capacity_divided [OF e(1)]
    show ?thesis by (cases "divided t") auto
  next
    case (claim2 t1 c0' c1' c2')
    note e = ensure_divided [OF claim2(2)]
    from IH [OF claim2(4)] IH [OF claim2(5)] IH [OF claim2(6)] claim2(1,7) e(6) e(7)
      leaves_within_capacity_divided [OF e(1)]
    show ?thesis by (cases "divided t") auto
  next
    case (claim3 t1 c0' c1' c2' c3')
    note e = ensure_divided [OF claim3(2)]
    from IH [OF claim3(4)] IH [OF claim3(5)] IH [OF claim3(6)] IH [OF claim3(7)] claim3(1,8)
      e(6) e(7) leaves_within_capacity_divided [OF e(1)]
    show ?thesis by (cases "divided t") auto
  next
    case (fallback t1 c0' c1' c2' c3')
    note e = ensure_divided [OF fallback(2)]
    from IH [OF fallback(4)] IH [OF fallback(5)] IH [OF fallback(6)] IH [OF fallback(7)]
      fallback(1,8) e(6) e(7) leaves_within_capacity_divided [OF e(1)]
    show ?thesis by (cases "divided t") auto
  qed
qed

lemma insert_qt_position:
  assumes "insert_qt h t p = Some y"
  shows "\<exists>xs ys. all_objects t = xs @ ys \<and>
           all_objects (snd y) = (if fst y then xs @ p # ys else xs @ ys)"
proof (rule insert_qt.raw_induct [where P = "\<lambda>h t p y.
         \<exists>xs ys. all_objects t = xs @ ys \<and>
           all_objects (snd y) = (if fst y then xs @ p # ys else xs @ ys)",
       OF _ assms], goal_cases)
  case (1 f h t p y)
  have same: "all_objects c' = all_objects k" if "f h k p = Some (False, c')" for k c'
    using 1(1) [OF that] by auto
  from 1(2) show ?case
  proof (cases rule: insert_body_cases)
    case miss
    then show ?thesis by (intro exI [of _ "all_objects t"] exI [of _ "[]"]) simp
  next
    case (room b c os)
    then show ?thesis by (intro exI [of _ "os"] exI [of _ "[]"]) simp
  next
    case (claim0 t1 c0')
    note e = ensure_divided [OF claim0(2)]
    from 1(1) [OF claim0(4)] obtain xs ys where
      k: "all_objects (child0 t1) = xs @ ys" "all_objects c0' = xs @ p # ys" by auto
    show ?thesis
      by (intro exI [of _ "objects t @ xs"]
          exI [of _ "ys @ all_objects (child1 t1) @ all_objects (child2 t1) @ all_objects (child3 t1)"])
        (simp add: claim0(5) e(6) k)
  next
    case (claim1 t1 c0' c1')
    note e = ensure_divided [OF claim1(2)]
    from 1(1) [OF claim1(5)] obtain xs ys where
      k: "all_objects (child1 t1) = xs @ ys" "all_objects c1' = xs @ p # ys" by auto
    show ?thesis
      by (intro exI [of _ "objects t @ all_objects (child0 t1) @ xs"]
          exI [of _ "ys @ all_objects (child2 t1) @ all_objects (child3 t1)"])
        (simp add: claim1(6) e(6) k same [OF claim1(4)])
  next
    case (claim2 t1 c0' c1' c2')
    note e = ensure_divided [OF claim2(2)]
    from 1(1) [OF claim2(6)] obtain xs ys where
      k: "all_objects (child2 t1) = xs @ ys" "all_objects c2' = xs @ p # ys" by auto
    show ?thesis
      by (intro exI [of _ "objects t @ all_objects (child0 t1) @ all_objects (child1 t1) @ xs"]
          exI [of _ "ys @ all_objects (child3 t1)"])
        (simp add: claim2(7) e(6) k same [OF claim2(4)] same [OF claim2(5)])
  next
    case (claim3 t1 c0' c1' c2' c3')
    note e = ensure_divided [OF claim3(2)]
    from 1(1) [OF claim3(7)] obtain xs ys where
      k: "all_objects (child3 t1) = xs @ ys" "all_objects c3' = xs @ p # ys" by auto
    show ?thesis
      by (intro exI [of _ "objects t @ all_objects (child0 t1) @ all_objects (child1 t1)
            @ all_objects (child2 t1) @ xs"] exI [of _ "ys"])
        (simp add: claim3(8) e(6) k same [OF claim3(4)] same [OF claim3(5)] same [OF claim3(6)])
  next
    case (fallback t1 c0' c1' c2' c3')
    note e = ensure_divided [OF fallback(2)]
    show ?thesis
      by (intro exI [of _ "objects t"]
          exI [of _ "all_objects (child0 t1) @ all_objects (child1 t1)
            @ all_objects (child2 t1) @ all_objects (child3 t1)"])
        (simp add: fallback(8) e(6) same [OF fallback(4)] same [OF fallback(5)]
          same [OF fallback(6)] same [OF fallback(7)])
  qed
qed

section \<open>Termination of insert\<close>

lemma capacity_as_size_t_pos: "c \<noteq> 0 \<Longrightarrow> 0 < capacity_as_size_t c"
proof -
  assume "c \<noteq> 0"
  then have nz: "sint c \<noteq> 0" by (simp add: signed_eq_0_iff)
  have lo: "- (2 ^ 31) \<le> sint c" using sint_ge [of c] by simp
  have hi: "sint c < 2 ^ 31" using sint_lt [of c] by simp
  show ?thesis
  proof (cases "0 < sint c")
    case True
    with hi have "sint c mod 2 ^ 64 = sint c" by (simp add: mod_pos_pos_trivial)
    with True show ?thesis by (simp add: capacity_as_size_t_def)
  next
    case False
    with nz have neg: "sint c < 0" by simp
    have "sint c mod 2 ^ 64 = (sint c + 2 ^ 64) mod 2 ^ 64" by simp
    also have "\<dots> = sint c + 2 ^ 64" using lo neg by (intro mod_pos_pos_trivial) simp_all
    finally show ?thesis using lo by (simp add: capacity_as_size_t_def)
  qed
qed

lemma insert_qt_fresh_leaf:
  "c \<noteq> 0 \<Longrightarrow> insert_qt h (Leaf b c []) p =
     Some (intersects b (bounds (h p)), Leaf b c (if intersects b (bounds (h p)) then [p] else []))"
  using capacity_as_size_t_pos [of c]
  by (simp add: insert_qt_miss insert_qt_leaf_room size_lt_capacity_def)

lemma insert_qt_divided_Some:
  assumes "intersects b (bounds (h p))"
    and "insert_qt h c0 p = Some (r0, c0')" and "insert_qt h c1 p = Some (r1, c1')"
    and "insert_qt h c2 p = Some (r2, c2')" and "insert_qt h c3 p = Some (r3, c3')"
  shows "insert_qt h (Divided b c os c0 c1 c2 c3) p =
     Some (True,
       if r0 then Divided b c os c0' c1 c2 c3
       else if r1 then Divided b c os c0' c1' c2 c3
       else if r2 then Divided b c os c0' c1' c2' c3
       else if r3 then Divided b c os c0' c1' c2' c3'
       else Divided b c (os @ [p]) c0' c1' c2' c3')"
  using assms by (simp add: insert_qt_divided)

lemma insert_qt_fallback:
  assumes "intersects b (bounds (h p))"
    and "\<not> intersects (boundary c0) (bounds (h p))" and "\<not> intersects (boundary c1) (bounds (h p))"
    and "\<not> intersects (boundary c2) (bounds (h p))" and "\<not> intersects (boundary c3) (bounds (h p))"
  shows "insert_qt h (Divided b c os c0 c1 c2 c3) p =
     Some (True, Divided b c (os @ [p]) c0 c1 c2 c3)"
  using assms by (simp add: insert_qt_divided insert_qt_miss)

lemma insert_qt_total:
  "0 \<notin> capacities t \<Longrightarrow> \<exists>y. insert_qt h t p = Some y \<and> capacities (snd y) = capacities t"
proof (induction t)
  case (Leaf b c os)
  then have c: "c \<noteq> 0" by auto
  show ?case
  proof (cases "intersects b (bounds (h p))")
    case False
    then show ?thesis by (simp add: insert_qt_miss)
  next
    case I: True
    show ?thesis
    proof (cases "size_lt_capacity (length os) c")
      case True
      with I show ?thesis by (simp add: insert_qt_leaf_room)
    next
      case False
      define b0 where "b0 = boundary (child0 (subdivide (Leaf b c os)))"
      define b1 where "b1 = boundary (child1 (subdivide (Leaf b c os)))"
      define b2 where "b2 = boundary (child2 (subdivide (Leaf b c os)))"
      define b3 where "b3 = boundary (child3 (subdivide (Leaf b c os)))"
      have sub: "subdivide (Leaf b c os) =
          Divided b c os (Leaf b0 c []) (Leaf b1 c []) (Leaf b2 c []) (Leaf b3 c [])"
        by (simp add: subdivide_def Let_def new_Quadtree_def b0_def b1_def b2_def b3_def)
      from insert_qt_divided_Some [where h = h and p = p and b = b and c = c and os = os,
          OF I insert_qt_fresh_leaf [OF c, of h b0 p]
          insert_qt_fresh_leaf [OF c, of h b1 p] insert_qt_fresh_leaf [OF c, of h b2 p]
          insert_qt_fresh_leaf [OF c, of h b3 p]]
      obtain t' where t': "insert_qt h (Divided b c os (Leaf b0 c []) (Leaf b1 c []) (Leaf b2 c []) (Leaf b3 c [])) p = Some (True, t')"
        and "capacities t' = {c}"
        by (cases "intersects b0 (bounds (h p))"; cases "intersects b1 (bounds (h p))";
            cases "intersects b2 (bounds (h p))"; cases "intersects b3 (bounds (h p))") simp_all
      with I False sub show ?thesis by (simp add: insert_qt_leaf_full)
    qed
  qed
next
  case (Divided b c os c0 c1 c2 c3)
  from Divided.prems Divided.IH obtain y0 y1 y2 y3 where
    y: "insert_qt h c0 p = Some y0" "insert_qt h c1 p = Some y1"
       "insert_qt h c2 p = Some y2" "insert_qt h c3 p = Some y3" and
    caps: "capacities (snd y0) = capacities c0" "capacities (snd y1) = capacities c1"
       "capacities (snd y2) = capacities c2" "capacities (snd y3) = capacities c3"
    by auto
  have unch: "\<not> fst y0 \<Longrightarrow> snd y0 = c0" "\<not> fst y1 \<Longrightarrow> snd y1 = c1" "\<not> fst y2 \<Longrightarrow> snd y2 = c2"
    "\<not> fst y3 \<Longrightarrow> snd y3 = c3"
    using y insert_qt_post by blast+
  show ?case
  proof (cases "intersects b (bounds (h p))")
    case False
    then show ?thesis by (simp add: insert_qt_miss)
  next
    case True
    from insert_qt_divided_Some [where h = h and p = p and b = b and c = c and os = os,
        OF True, of c0 "fst y0" "snd y0" c1 "fst y1" "snd y1"
        c2 "fst y2" "snd y2" c3 "fst y3" "snd y3"] y caps unch
    show ?thesis by auto
  qed
qed

lemma insert_all_total:
  "0 \<notin> capacities t \<Longrightarrow> \<exists>t'. insert_all h t ps = Some t' \<and> capacities t' = capacities t"
proof (induction ps arbitrary: t)
  case Nil
  show ?case by simp
next
  case (Cons p ps)
  from insert_qt_total [OF Cons.prems, of h p] obtain r t1 where
    1: "insert_qt h t p = Some (r, t1)" and 2: "capacities t1 = capacities t" by auto
  from Cons.prems 2 have "0 \<notin> capacities t1" by simp
  from Cons.IH [OF this] 1 2 show ?case by auto
qed

lemma insert_all_mset:
  "insert_all h t ps = Some t' \<Longrightarrow> mset (all_objects t') \<subseteq># mset (all_objects t) + mset ps"
proof (induction ps arbitrary: t)
  case Nil
  then show ?case by simp
next
  case (Cons p ps)
  from Cons.prems obtain r t1 where 1: "insert_qt h t p = Some (r, t1)"
    and 2: "insert_all h t1 ps = Some t'"
    by (auto split: option.splits)
  from insert_qt_post [OF 1] have "mset (all_objects t1) \<subseteq># mset (all_objects t) + {#p#}"
    by (cases r) simp_all
  then have "mset (all_objects t1) + mset ps \<subseteq># mset (all_objects t) + {#p#} + mset ps"
    by (rule subset_mset.add_right_mono)
  with Cons.IH [OF 2] show ?case by (simp add: subset_mset.order_trans)
qed

lemma insert_all_fallback:
  assumes "\<forall>p \<in> set ps. intersects b (bounds (h p)) \<and>
      \<not> intersects (boundary c0) (bounds (h p)) \<and> \<not> intersects (boundary c1) (bounds (h p)) \<and>
      \<not> intersects (boundary c2) (bounds (h p)) \<and> \<not> intersects (boundary c3) (bounds (h p))"
  shows "insert_all h (Divided b c os c0 c1 c2 c3) ps = Some (Divided b c (os @ ps) c0 c1 c2 c3)"
  using assms
proof (induction ps arbitrary: os)
  case Nil
  show ?case by simp
next
  case (Cons p ps)
  then show ?case by (simp add: insert_qt_fallback)
qed

section \<open>Soundness of query, single storage, termination, the frame of subdivide\<close>

text \<open>
  C3. No false positives: whatever the tree and the query rectangle, \<^verbatim>\<open>query\<close> leaves
  \<^verbatim>\<open>found\<close> as it was and appends pointers that are stored in the tree and whose objects have
  bounds that intersect the rectangle, in either order of the two arguments of
  \<^verbatim>\<open>intersects\<close>.
\<close>

theorem query_no_false_positives:
  "query h t R found = found @ query h t R [] \<and>
   (\<forall>p \<in> set (query h t R []).
      intersects R (bounds (h p)) \<and> intersects (bounds (h p)) R \<and> p \<in> set (all_objects t))"
proof
  show "query h t R found = found @ query h t R []" by (rule query_found)
  show "\<forall>p \<in> set (query h t R []).
      intersects R (bounds (h p)) \<and> intersects (bounds (h p)) R \<and> p \<in> set (all_objects t)"
    using query_sound [of _ h t R] by (auto simp: intersects_commute [of R])
qed

theorem query_no_false_positives_witness:
  "5 \<in> set (query main_objects main_tree queryRange []) \<and>
   intersects queryRange (bounds (main_objects 5)) \<and>
   intersects (bounds (main_objects 5)) queryRange \<and> 5 \<in> set (all_objects main_tree)"
proof -
  have a: "5 \<in> set (query main_objects main_tree queryRange [])"
    by (simp add: main_queryRange)
  from query_no_false_positives [of main_objects main_tree queryRange "[]",
      THEN conjunct2, rule_format, OF a] a
  show ?thesis by simp
qed

text \<open>
  C8. Single storage. A call of \<^verbatim>\<open>insert\<close> that returns true puts its pointer at one place
  of the direct lists of the subtree (read in the order node, \<^verbatim>\<open>children[0]\<close> to
  \<^verbatim>\<open>children[3]\<close>) and leaves the rest as it was; a call that returns false leaves all of
  them as they were. So when pairwise distinct pointers are inserted into a new tree,
  no pointer occurs twice in the direct lists, and no query returns a pointer twice.
\<close>

theorem single_storage:
  "(insert_qt h t p = Some (r, t') \<longrightarrow>
      (\<exists>xs ys. all_objects t = xs @ ys \<and>
         all_objects t' = (if r then xs @ p # ys else xs @ ys))) \<and>
   (distinct ps \<and> insert_all h (new_Quadtree b c) ps = Some t'' \<longrightarrow>
      distinct (all_objects t'') \<and> distinct (query h t'' R []))"
proof (intro conjI impI)
  assume "insert_qt h t p = Some (r, t')"
  from insert_qt_position [OF this]
  show "\<exists>xs ys. all_objects t = xs @ ys \<and>
         all_objects t' = (if r then xs @ p # ys else xs @ ys)" by simp
next
  assume a: "distinct ps \<and> insert_all h (new_Quadtree b c) ps = Some t''"
  then have "mset (all_objects t'') \<subseteq># mset ps"
    using insert_all_mset [of h "new_Quadtree b c" ps t''] by (simp add: new_Quadtree_def)
  with a show "distinct (all_objects t'')" by (auto intro: distinct_subseteq_mset)
  then show "distinct (query h t'' R [])" by (rule distinct_query)
qed

lemma main_step_5:
  "insert_qt main_objects (Leaf worldBoundary 4 [1, 2, 3, 4]) 5 =
     Some (True, Divided worldBoundary 4 [1, 2, 3, 4]
       (Leaf \<lparr>rx = 400, ry = 0, width = 400, height = 300\<rparr> 4 [])
       (Leaf \<lparr>rx = 0, ry = 0, width = 400, height = 300\<rparr> 4 [5])
       (Leaf \<lparr>rx = 400, ry = 300, width = 400, height = 300\<rparr> 4 [])
       (Leaf \<lparr>rx = 0, ry = 300, width = 400, height = 300\<rparr> 4 []))"
  by (simp add: run_simps main_objects_def worldBoundary_def)

theorem single_storage_witness:
  "insert_qt main_objects (Leaf worldBoundary 4 [1, 2, 3, 4]) 5 =
     Some (True, Divided worldBoundary 4 [1, 2, 3, 4]
       (Leaf \<lparr>rx = 400, ry = 0, width = 400, height = 300\<rparr> 4 [])
       (Leaf \<lparr>rx = 0, ry = 0, width = 400, height = 300\<rparr> 4 [5])
       (Leaf \<lparr>rx = 400, ry = 300, width = 400, height = 300\<rparr> 4 [])
       (Leaf \<lparr>rx = 0, ry = 300, width = 400, height = 300\<rparr> 4 [])) \<and>
   (\<exists>xs ys. all_objects (Leaf worldBoundary 4 [1, 2, 3, 4]) = xs @ ys \<and>
      all_objects (Divided worldBoundary 4 [1, 2, 3, 4]
       (Leaf \<lparr>rx = 400, ry = 0, width = 400, height = 300\<rparr> 4 [])
       (Leaf \<lparr>rx = 0, ry = 0, width = 400, height = 300\<rparr> 4 [5])
       (Leaf \<lparr>rx = 400, ry = 300, width = 400, height = 300\<rparr> 4 [])
       (Leaf \<lparr>rx = 0, ry = 300, width = 400, height = 300\<rparr> 4 [])) = xs @ 5 # ys) \<and>
   distinct [1, 2, 3, 4, 5, 6, 7, 8 :: objptr] \<and>
   insert_all main_objects (new_Quadtree worldBoundary 4) [1, 2, 3, 4, 5, 6, 7, 8] = Some main_tree \<and>
   distinct (all_objects main_tree) \<and> distinct (query main_objects main_tree queryRange [])"
proof -
  define T where "T = Divided worldBoundary 4 [1, 2, 3, 4]
       (Leaf \<lparr>rx = 400, ry = 0, width = 400, height = 300\<rparr> 4 [])
       (Leaf \<lparr>rx = 0, ry = 0, width = 400, height = 300\<rparr> 4 [5])
       (Leaf \<lparr>rx = 400, ry = 300, width = 400, height = 300\<rparr> 4 [])
       (Leaf \<lparr>rx = 0, ry = 300, width = 400, height = 300\<rparr> 4 [])"
  have step: "insert_qt main_objects (Leaf worldBoundary 4 [1, 2, 3, 4]) 5 = Some (True, T)"
    unfolding T_def by (rule main_step_5)
  have d: "distinct [1, 2, 3, 4, 5, 6, 7, 8 :: objptr]" by simp
  from single_storage [of main_objects "Leaf worldBoundary 4 [1, 2, 3, 4]" 5 True T
      "[1, 2, 3, 4, 5, 6, 7, 8]" worldBoundary 4 main_tree queryRange]
    step main_inserts d
  have "(\<exists>xs ys. all_objects (Leaf worldBoundary 4 [1, 2, 3, 4]) = xs @ ys \<and>
           all_objects T = xs @ 5 # ys) \<and>
        distinct (all_objects main_tree) \<and> distinct (query main_objects main_tree queryRange [])"
    by simp
  with step main_inserts d show ?thesis unfolding T_def by simp
qed

text \<open>
  C9. Termination. On a tree constructed with a capacity of at least 1, every sequence
  of calls of \<^verbatim>\<open>insert\<close> returns, and so does every further call on the tree they leave.
  \<^verbatim>\<open>query\<close> recurses on the children only, so it is a total function by its definition.
\<close>

theorem insert_terminates:
  "1 \<le> sint c \<Longrightarrow>
     \<exists>t. insert_all h (new_Quadtree b c) ps = Some t \<and>
         (\<forall>p. \<exists>r t'. insert_qt h t p = Some (r, t'))"
proof -
  assume "1 \<le> sint c"
  then have "c \<noteq> 0" by auto
  then have nz: "0 \<notin> capacities (new_Quadtree b c)" by (simp add: new_Quadtree_def)
  from insert_all_total [OF nz, of h ps] obtain t where
    t: "insert_all h (new_Quadtree b c) ps = Some t"
    and caps: "capacities t = capacities (new_Quadtree b c)"
    by blast
  from nz caps have "0 \<notin> capacities t" by simp
  from insert_qt_total [OF this, of h] have "\<forall>p. \<exists>r t'. insert_qt h t p = Some (r, t')"
    by (metis surj_pair)
  with t show ?thesis by blast
qed

theorem insert_terminates_witness:
  "1 \<le> sint (4 :: 32 word) \<and>
   (\<exists>t. insert_all main_objects (new_Quadtree worldBoundary 4) [1, 2, 3, 4, 5, 6, 7, 8] = Some t \<and>
        (\<exists>r t'. insert_qt main_objects t 9 = Some (r, t')))"
proof -
  have c: "1 \<le> sint (4 :: 32 word)" by simp
  from insert_terminates [OF c, of main_objects worldBoundary "[1, 2, 3, 4, 5, 6, 7, 8]"] c
  show ?thesis by blast
qed

text \<open>
  C7. The frame of \<^verbatim>\<open>subdivide\<close>: the boundary, the capacity and the direct list of the node
  are what they were; the node is divided afterwards and its four children are new,
  undivided and empty, so nothing of the direct list has moved into them.
\<close>

theorem subdivide_frame:
  "boundary (subdivide t) = boundary t \<and> capacity (subdivide t) = capacity t \<and>
   objects (subdivide t) = objects t \<and> divided (subdivide t) \<and>
   child0 (subdivide t) = new_Quadtree (boundary (child0 (subdivide t))) (capacity t) \<and>
   child1 (subdivide t) = new_Quadtree (boundary (child1 (subdivide t))) (capacity t) \<and>
   child2 (subdivide t) = new_Quadtree (boundary (child2 (subdivide t))) (capacity t) \<and>
   child3 (subdivide t) = new_Quadtree (boundary (child3 (subdivide t))) (capacity t) \<and>
   all_objects (subdivide t) = objects t"
  by (simp add: subdivide_def Let_def new_Quadtree_def)

section \<open>Capacity 0\<close>

text \<open>
  In exact arithmetic the four children cover what the parent covers, so a well-formed
  object that intersects the boundary of an undivided node of capacity 0 sends \<^verbatim>\<open>insert\<close>
  down without end. (With rounding the descent can stop: once the sums round, no child
  need intersect the object, and the fallback of line 114 stores it.)
\<close>

lemma subdivide_children:
  "child0 (subdivide t) = Leaf (boundary (child0 (subdivide t))) (capacity t) []"
  "child1 (subdivide t) = Leaf (boundary (child1 (subdivide t))) (capacity t) []"
  "child2 (subdivide t) = Leaf (boundary (child2 (subdivide t))) (capacity t) []"
  "child3 (subdivide t) = Leaf (boundary (child3 (subdivide t))) (capacity t) []"
  by (simp_all add: subdivide_def Let_def new_Quadtree_def)

lemma subdivide_covers:
  fixes t :: "'a::linordered_field Quadtree"
  assumes "well_formed ob" and "intersects (boundary t) ob"
  shows "intersects (boundary (child0 (subdivide t))) ob \<or>
         intersects (boundary (child1 (subdivide t))) ob \<or>
         intersects (boundary (child2 (subdivide t))) ob \<or>
         intersects (boundary (child3 (subdivide t))) ob"
proof -
  define x y w g where "x = rx (boundary t)" and "y = ry (boundary t)"
    and "w = width (boundary t)" and "g = height (boundary t)"
  define ox oy ow og where "ox = rx ob" and "oy = ry ob" and "ow = width ob" and "og = height ob"
  have two: "(1 + 1 :: 'a) = 2" by simp
  from assms have wf: "0 \<le> ow" "0 \<le> og"
    and I: "ox \<le> x + w" "oy \<le> y + g" "x \<le> ox + ow" "y \<le> oy + og"
    by (simp_all add: well_formed_def intersects_def x_def y_def w_def g_def
        ox_def oy_def ow_def og_def not_less)
  have halves: "x + w / 2 + w / 2 = x + w" "y + g / 2 + g / 2 = y + g" by simp_all
  have X: "(ox \<le> x + w / 2 \<and> x \<le> ox + ow) \<or> (ox \<le> x + w / 2 + w / 2 \<and> x + w / 2 \<le> ox + ow)"
    using wf I halves by (cases "ox \<le> x + w / 2") auto
  have Y: "(oy \<le> y + g / 2 \<and> y \<le> oy + og) \<or> (oy \<le> y + g / 2 + g / 2 \<and> y + g / 2 \<le> oy + og)"
    using wf I halves by (cases "oy \<le> y + g / 2") auto
  have c0: "intersects (boundary (child0 (subdivide t))) ob \<longleftrightarrow>
      (ox \<le> x + w / 2 + w / 2 \<and> x + w / 2 \<le> ox + ow) \<and> (oy \<le> y + g / 2 \<and> y \<le> oy + og)"
    by (auto simp: subdivide_def Let_def new_Quadtree_def intersects_def two not_less
        x_def y_def w_def g_def ox_def oy_def ow_def og_def)
  have c1: "intersects (boundary (child1 (subdivide t))) ob \<longleftrightarrow>
      (ox \<le> x + w / 2 \<and> x \<le> ox + ow) \<and> (oy \<le> y + g / 2 \<and> y \<le> oy + og)"
    by (auto simp: subdivide_def Let_def new_Quadtree_def intersects_def two not_less
        x_def y_def w_def g_def ox_def oy_def ow_def og_def)
  have c2: "intersects (boundary (child2 (subdivide t))) ob \<longleftrightarrow>
      (ox \<le> x + w / 2 + w / 2 \<and> x + w / 2 \<le> ox + ow) \<and>
      (oy \<le> y + g / 2 + g / 2 \<and> y + g / 2 \<le> oy + og)"
    by (auto simp: subdivide_def Let_def new_Quadtree_def intersects_def two not_less
        x_def y_def w_def g_def ox_def oy_def ow_def og_def)
  have c3: "intersects (boundary (child3 (subdivide t))) ob \<longleftrightarrow>
      (ox \<le> x + w / 2 \<and> x \<le> ox + ow) \<and> (oy \<le> y + g / 2 + g / 2 \<and> y + g / 2 \<le> oy + og)"
    by (auto simp: subdivide_def Let_def new_Quadtree_def intersects_def two not_less
        x_def y_def w_def g_def ox_def oy_def ow_def og_def)
  from X Y show ?thesis unfolding c0 c1 c2 c3 by blast
qed

lemma size_lt_capacity_0: "\<not> size_lt_capacity n 0"
  by (simp add: size_lt_capacity_def capacity_as_size_t_def)

lemma insert_qt_capacity_0_post:
  fixes h :: "'a::linordered_field heap"
  assumes "insert_qt h t p = Some y"
  shows "(fst y \<longleftrightarrow> intersects (boundary t) (bounds (h p))) \<and>
         \<not> (\<not> divided t \<and> capacity t = 0 \<and> well_formed (bounds (h p)) \<and>
            intersects (boundary t) (bounds (h p)))"
proof (rule insert_qt.raw_induct [where P = "\<lambda>h t p y.
         (fst y \<longleftrightarrow> intersects (boundary t) (bounds (h p))) \<and>
         \<not> (\<not> divided t \<and> capacity t = 0 \<and> well_formed (bounds (h p)) \<and>
            intersects (boundary t) (bounds (h p)))",
       OF _ assms], goal_cases)
  case (1 f h t p y)
  note IH = 1(1)
  have leaf_child: "False"
    if "\<not> divided t" "capacity t = 0" "well_formed (bounds (h p))"
      and "t1 = (if \<not> divided t then subdivide t else t)"
      and "k = child0 t1 \<or> k = child1 t1 \<or> k = child2 t1 \<or> k = child3 t1"
      and "f h k p = Some (True, c')" for t1 k c'
  proof -
    from that(1,4) have t1: "t1 = subdivide t" by simp
    from that(5) subdivide_children [of t] that(2) have "\<not> divided k \<and> capacity k = 0"
      unfolding t1 by (metis Quadtree.disc(1) Quadtree.sel(3))
    with IH [OF that(6)] that(3) show False by simp
  qed
  from 1(2) show ?case
  proof (cases rule: insert_body_cases)
    case miss
    then show ?thesis by simp
  next
    case (room b c os)
    then show ?thesis using size_lt_capacity_0 [of "length os"] by auto
  next
    case (claim0 t1 c0')
    with leaf_child [OF _ _ _ claim0(2) _ claim0(4)] show ?thesis by auto
  next
    case (claim1 t1 c0' c1')
    with leaf_child [OF _ _ _ claim1(2) _ claim1(5)] show ?thesis by auto
  next
    case (claim2 t1 c0' c1' c2')
    with leaf_child [OF _ _ _ claim2(2) _ claim2(6)] show ?thesis by auto
  next
    case (claim3 t1 c0' c1' c2' c3')
    with leaf_child [OF _ _ _ claim3(2) _ claim3(7)] show ?thesis by auto
  next
    case (fallback t1 c0' c1' c2' c3')
    have "False" if leaf: "\<not> divided t" and wf: "well_formed (bounds (h p))"
    proof -
      from leaf fallback(2) have t1: "t1 = subdivide t" by simp
      from IH [OF fallback(4)] IH [OF fallback(5)] IH [OF fallback(6)] IH [OF fallback(7)]
      have "\<not> intersects (boundary (child0 t1)) (bounds (h p))"
        "\<not> intersects (boundary (child1 t1)) (bounds (h p))"
        "\<not> intersects (boundary (child2 t1)) (bounds (h p))"
        "\<not> intersects (boundary (child3 t1)) (bounds (h p))" by simp_all
      with subdivide_covers [OF wf fallback(1)] show False unfolding t1 by blast
    qed
    with fallback show ?thesis by auto
  qed
qed

lemma insert_qt_capacity_0_diverges:
  fixes h :: "'a::linordered_field heap"
  assumes "\<not> divided t" and "capacity t = 0" and "well_formed (bounds (h p))"
    and "intersects (boundary t) (bounds (h p))"
  shows "insert_qt h t p = None"
proof (cases "insert_qt h t p")
  case None
  then show ?thesis .
next
  case (Some y)
  from insert_qt_capacity_0_post [OF Some] assms show ?thesis by simp
qed

section \<open>Completeness of query, the result of insert, the capacity\<close>

text \<open>
  C1. Completeness of \<^verbatim>\<open>query\<close> fails. World \<open>{0,0,100,100}\<close>, capacity 1. Object 1,
  \<open>{10,10,5,5}\<close>, goes to the root. Object 2, \<open>{40,10,20,10}\<close>, lies across \<open>x = 50\<close>; the root
  is full and subdivides, and \<^verbatim>\<open>children[0]\<close> (north-east, \<open>{50,0,50,50}\<close>) is the first child
  whose boundary it intersects, so it is stored there. Both inserts return true. The
  query rectangle \<open>{0,0,45,45}\<close> overlaps object 2 between \<open>x = 40\<close> and \<open>x = 45\<close>, but it does
  not reach the north-east child, which \<^verbatim>\<open>query\<close> prunes: the result is object 1 alone.
\<close>

theorem query_misses_straddling_object:
  "insert_qt two_objects (new_Quadtree small_world 1) 1 = Some (True, Leaf small_world 1 [1]) \<and>
   insert_qt two_objects (Leaf small_world 1 [1]) 2 =
     Some (True, Divided small_world 1 [1]
       (Leaf \<lparr>rx = 50, ry = 0, width = 50, height = 50\<rparr> 1 [2])
       (Leaf \<lparr>rx = 0, ry = 0, width = 50, height = 50\<rparr> 1 [])
       (Leaf \<lparr>rx = 50, ry = 50, width = 50, height = 50\<rparr> 1 [])
       (Leaf \<lparr>rx = 0, ry = 50, width = 50, height = 50\<rparr> 1 [])) \<and>
   intersects (bounds (two_objects 2)) \<lparr>rx = 0, ry = 0, width = 45, height = 45\<rparr> \<and>
   intersects \<lparr>rx = 0, ry = 0, width = 45, height = 45\<rparr> (bounds (two_objects 2)) \<and>
   query two_objects (Divided small_world 1 [1]
       (Leaf \<lparr>rx = 50, ry = 0, width = 50, height = 50\<rparr> 1 [2])
       (Leaf \<lparr>rx = 0, ry = 0, width = 50, height = 50\<rparr> 1 [])
       (Leaf \<lparr>rx = 50, ry = 50, width = 50, height = 50\<rparr> 1 [])
       (Leaf \<lparr>rx = 0, ry = 50, width = 50, height = 50\<rparr> 1 []))
     \<lparr>rx = 0, ry = 0, width = 45, height = 45\<rparr> [] = [1]"
  by (simp add: run_simps two_objects_def small_world_def)

text \<open>
  C4 does not hold on a node of capacity 0: in the world of \<^verbatim>\<open>main\<close> with capacity 0, the
  bounds \<open>{0,0,10,10}\<close> of an object intersect the boundary, and the call of \<^verbatim>\<open>insert\<close> never
  returns, so it does not return true: a node of capacity 0 never has room, and among
  the four children it makes there is always one that the object intersects. (The
  theorem is in exact arithmetic. In \<^verbatim>\<open>float\<close> the call does not return either: a
  north-west child keeps the corner of its parent, so the corner of every node that the
  recursion reaches lies in the object, and its north-west child intersects the object.)
\<close>

theorem insert_capacity_0_never_returns:
  "intersects (boundary (new_Quadtree worldBoundary 0)) (bounds (corner_objects 1)) \<and>
   insert_qt corner_objects (new_Quadtree worldBoundary 0) 1 = None"
proof -
  have I: "intersects (boundary (new_Quadtree worldBoundary 0)) (bounds (corner_objects 1))"
    by (simp add: new_Quadtree_def intersects_def worldBoundary_def corner_objects_def)
  have wf: "well_formed (bounds (corner_objects 1))"
    by (simp add: well_formed_def corner_objects_def)
  have "insert_qt corner_objects (new_Quadtree worldBoundary 0) 1 = None"
    using wf I
    by (intro insert_qt_capacity_0_diverges) (simp_all add: new_Quadtree_def)
  with I show ?thesis by simp
qed

text \<open>
  C4, amended. Whenever \<^verbatim>\<open>insert\<close> returns, it returns false exactly when the bounds of the
  object do not intersect the boundary of the node, and then the tree is unchanged;
  when it returns true the object has been added once to the direct lists of the
  subtree. On a tree that has no node of capacity 0, \<^verbatim>\<open>insert\<close> does return.
\<close>

theorem insert_return_value:
  "(insert_qt h t p = Some (r, t') \<longrightarrow>
      (r = False \<longleftrightarrow> \<not> intersects (boundary t) (bounds (h p))) \<and>
      (\<not> r \<longrightarrow> t' = t) \<and>
      (r \<longrightarrow> mset (all_objects t') = mset (all_objects t) + {#p#})) \<and>
   (0 \<notin> capacities t \<longrightarrow> (\<exists>r t'. insert_qt h t p = Some (r, t')))"
proof (intro conjI impI)
  assume a: "insert_qt h t p = Some (r, t')"
  from insert_qt_post [OF a] show "r = False \<longleftrightarrow> \<not> intersects (boundary t) (bounds (h p))"
    by simp
  from insert_qt_post [OF a] show "t' = t" if "\<not> r" using that by simp
  from insert_qt_post [OF a] show "mset (all_objects t') = mset (all_objects t) + {#p#}" if "r"
    using that by simp
next
  assume "0 \<notin> capacities t"
  from insert_qt_total [OF this, of h p] show "\<exists>r t'. insert_qt h t p = Some (r, t')"
    by (metis surj_pair)
qed

theorem insert_return_value_witness:
  "insert_qt main_objects main_tree 5 = Some (True,
     Divided worldBoundary 4 [1, 2, 3, 4]
     (Leaf \<lparr>rx = 400, ry = 0, width = 400, height = 300\<rparr> 4 [7])
     (Leaf \<lparr>rx = 0, ry = 0, width = 400, height = 300\<rparr> 4 [5, 6, 5])
     (Leaf \<lparr>rx = 400, ry = 300, width = 400, height = 300\<rparr> 4 [8])
     (Leaf \<lparr>rx = 0, ry = 300, width = 400, height = 300\<rparr> 4 [])) \<and>
   intersects (boundary main_tree) (bounds (main_objects 5)) \<and>
   mset (all_objects (Divided worldBoundary 4 [1, 2, 3, 4]
     (Leaf \<lparr>rx = 400, ry = 0, width = 400, height = 300\<rparr> 4 [7])
     (Leaf \<lparr>rx = 0, ry = 0, width = 400, height = 300\<rparr> 4 [5, 6, 5])
     (Leaf \<lparr>rx = 400, ry = 300, width = 400, height = 300\<rparr> 4 [8])
     (Leaf \<lparr>rx = 0, ry = 300, width = 400, height = 300\<rparr> 4 []))) =
     mset (all_objects main_tree) + {#5#} \<and>
   0 \<notin> capacities main_tree \<and>
   (\<exists>r t'. insert_qt main_objects main_tree 5 = Some (r, t')) \<and>
   insert_qt main_objects (child0 main_tree) 1 = Some (False, child0 main_tree) \<and>
   \<not> intersects (boundary (child0 main_tree)) (bounds (main_objects 1))"
proof -
  define T where "T = Divided worldBoundary 4 [1, 2, 3, 4]
     (Leaf \<lparr>rx = 400, ry = 0, width = 400, height = 300\<rparr> 4 [7])
     (Leaf \<lparr>rx = 0, ry = 0, width = 400, height = 300\<rparr> 4 [5, 6, 5])
     (Leaf \<lparr>rx = 400, ry = 300, width = 400, height = 300\<rparr> 4 [8])
     (Leaf \<lparr>rx = 0, ry = 300, width = 400, height = 300\<rparr> 4 [])"
  have step: "insert_qt main_objects main_tree 5 = Some (True, T)"
    by (simp add: run_simps main_objects_def worldBoundary_def main_tree_def T_def)
  have caps: "0 \<notin> capacities main_tree" by (simp add: main_tree_def)
  from insert_return_value [of main_objects main_tree 5 True T] step caps
  have "intersects (boundary main_tree) (bounds (main_objects 5)) \<and>
        mset (all_objects T) = mset (all_objects main_tree) + {#5#} \<and>
        (\<exists>r t'. insert_qt main_objects main_tree 5 = Some (r, t'))"
    by simp
  moreover have miss: "insert_qt main_objects (child0 main_tree) 1 = Some (False, child0 main_tree)"
    by (simp add: run_simps main_objects_def main_tree_def)
  moreover from insert_return_value [of main_objects "child0 main_tree" 1 False "child0 main_tree"]
    miss
  have "\<not> intersects (boundary (child0 main_tree)) (bounds (main_objects 1))"
    by simp
  ultimately show ?thesis using step caps unfolding T_def by simp
qed

text \<open>
  C10 does not hold for a negative capacity. The test of line 92 converts the capacity
  to \<^verbatim>\<open>size_t\<close>, so with capacity \<open>-1\<close> the root never subdivides: after the eight inserts of
  \<^verbatim>\<open>main\<close> it is undivided and holds eight objects, and \<open>8 \<le> -1\<close> is false.
\<close>

theorem negative_capacity_leaf_overfull:
  "insert_all main_objects (new_Quadtree worldBoundary (- 1)) [1, 2, 3, 4, 5, 6, 7, 8] =
     Some (Leaf worldBoundary (- 1) [1, 2, 3, 4, 5, 6, 7, 8]) \<and>
   \<not> divided (Leaf worldBoundary (- 1) [1, 2, 3, 4, 5, 6, 7, 8] :: rat Quadtree) \<and>
   \<not> int (length (objects (Leaf worldBoundary (- 1) [1, 2, 3, 4, 5, 6, 7, 8] :: rat Quadtree)))
       \<le> sint (capacity (Leaf worldBoundary (- 1) [1, 2, 3, 4, 5, 6, 7, 8] :: rat Quadtree))"
  by (simp add: run_simps main_objects_def worldBoundary_def)

text \<open>
  C10, amended. On a tree constructed with a capacity that is not negative, after any
  inserts every undivided node holds at most \<^verbatim>\<open>capacity\<close> objects. On a divided node, an
  object whose bounds intersect the boundary and none of the four children's
  boundaries is appended to the direct list whatever its length, so a list of such
  objects makes the direct list as long as one likes.
\<close>

theorem capacity_bounds_only_leaves:
  "(0 \<le> sint cap \<and> insert_all h (new_Quadtree bd cap) qs = Some t \<longrightarrow>
      leaves_within_capacity t) \<and>
   ((\<forall>p \<in> set ps. intersects b (bounds (h p)) \<and>
       \<not> intersects (boundary c0) (bounds (h p)) \<and> \<not> intersects (boundary c1) (bounds (h p)) \<and>
       \<not> intersects (boundary c2) (bounds (h p)) \<and> \<not> intersects (boundary c3) (bounds (h p))) \<longrightarrow>
     insert_all h (Divided b c os c0 c1 c2 c3) ps = Some (Divided b c (os @ ps) c0 c1 c2 c3))"
proof (intro conjI impI)
  have pres: "leaves_within_capacity t1 \<Longrightarrow> insert_all h t1 qs = Some t \<Longrightarrow> leaves_within_capacity t"
    for t1
  proof (induction qs arbitrary: t1)
    case Nil
    then show ?case by simp
  next
    case (Cons q qs)
    from Cons.prems(2) obtain r t2 where 1: "insert_qt h t1 q = Some (r, t2)"
      and 2: "insert_all h t2 qs = Some t"
      by (auto split: option.splits)
    from insert_qt_post [OF 1] Cons.prems(1) have "leaves_within_capacity t2" by simp
    from Cons.IH [OF this 2] show ?case .
  qed
  assume a: "0 \<le> sint cap \<and> insert_all h (new_Quadtree bd cap) qs = Some t"
  then have "leaves_within_capacity (new_Quadtree bd cap)"
    by (simp add: new_Quadtree_def)
  with a show "leaves_within_capacity t" by (intro pres [of "new_Quadtree bd cap"]) simp_all
next
  assume "\<forall>p \<in> set ps. intersects b (bounds (h p)) \<and>
       \<not> intersects (boundary c0) (bounds (h p)) \<and> \<not> intersects (boundary c1) (bounds (h p)) \<and>
       \<not> intersects (boundary c2) (bounds (h p)) \<and> \<not> intersects (boundary c3) (bounds (h p))"
  then show "insert_all h (Divided b c os c0 c1 c2 c3) ps = Some (Divided b c (os @ ps) c0 c1 c2 c3)"
    by (rule insert_all_fallback)
qed

theorem capacity_bounds_only_leaves_witness:
  "0 \<le> sint (4 :: 32 word) \<and>
   insert_all main_objects (new_Quadtree worldBoundary 4) [1, 2, 3, 4, 5, 6, 7, 8] = Some main_tree \<and>
   leaves_within_capacity main_tree \<and>
   intersects worldBoundary (bounds (negative_width_objects 9)) \<and>
   \<not> intersects \<lparr>rx = 400, ry = 0, width = 400, height = 300\<rparr> (bounds (negative_width_objects 9)) \<and>
   \<not> intersects \<lparr>rx = 0, ry = 0, width = 400, height = 300\<rparr> (bounds (negative_width_objects 9)) \<and>
   \<not> intersects \<lparr>rx = 400, ry = 300, width = 400, height = 300\<rparr> (bounds (negative_width_objects 9)) \<and>
   \<not> intersects \<lparr>rx = 0, ry = 300, width = 400, height = 300\<rparr> (bounds (negative_width_objects 9)) \<and>
   insert_all negative_width_objects main_tree [9, 10, 11, 12, 13] =
     Some (Divided worldBoundary 4 [1, 2, 3, 4, 9, 10, 11, 12, 13]
       (Leaf \<lparr>rx = 400, ry = 0, width = 400, height = 300\<rparr> 4 [7])
       (Leaf \<lparr>rx = 0, ry = 0, width = 400, height = 300\<rparr> 4 [5, 6])
       (Leaf \<lparr>rx = 400, ry = 300, width = 400, height = 300\<rparr> 4 [8])
       (Leaf \<lparr>rx = 0, ry = 300, width = 400, height = 300\<rparr> 4 []))"
proof -
  have hyp: "\<forall>p \<in> set [9, 10, 11, 12, 13].
      intersects worldBoundary (bounds (negative_width_objects p)) \<and>
      \<not> intersects (boundary (Leaf \<lparr>rx = 400, ry = 0, width = 400, height = 300\<rparr> 4 [7]))
          (bounds (negative_width_objects p)) \<and>
      \<not> intersects (boundary (Leaf \<lparr>rx = 0, ry = 0, width = 400, height = 300\<rparr> 4 [5, 6]))
          (bounds (negative_width_objects p)) \<and>
      \<not> intersects (boundary (Leaf \<lparr>rx = 400, ry = 300, width = 400, height = 300\<rparr> 4 [8]))
          (bounds (negative_width_objects p)) \<and>
      \<not> intersects (boundary (Leaf \<lparr>rx = 0, ry = 300, width = 400, height = 300\<rparr> 4 []))
          (bounds (negative_width_objects p))"
    by (simp add: intersects_def negative_width_objects_def worldBoundary_def)
  have c: "0 \<le> sint (4 :: 32 word)" by simp
  from capacity_bounds_only_leaves [of 4 main_objects worldBoundary "[1, 2, 3, 4, 5, 6, 7, 8]"
      main_tree] main_inserts c
  have a: "leaves_within_capacity main_tree"
    by simp
  from capacity_bounds_only_leaves [of 4 negative_width_objects worldBoundary "[]" _
      "[9, 10, 11, 12, 13]" worldBoundary] hyp
  have b: "insert_all negative_width_objects main_tree [9, 10, 11, 12, 13] =
     Some (Divided worldBoundary 4 [1, 2, 3, 4, 9, 10, 11, 12, 13]
       (Leaf \<lparr>rx = 400, ry = 0, width = 400, height = 300\<rparr> 4 [7])
       (Leaf \<lparr>rx = 0, ry = 0, width = 400, height = 300\<rparr> 4 [5, 6])
       (Leaf \<lparr>rx = 400, ry = 300, width = 400, height = 300\<rparr> 4 [8])
       (Leaf \<lparr>rx = 0, ry = 300, width = 400, height = 300\<rparr> 4 []))"
    unfolding main_tree_def by simp
  from hyp have "intersects worldBoundary (bounds (negative_width_objects 9)) \<and>
   \<not> intersects \<lparr>rx = 400, ry = 0, width = 400, height = 300\<rparr> (bounds (negative_width_objects 9)) \<and>
   \<not> intersects \<lparr>rx = 0, ry = 0, width = 400, height = 300\<rparr> (bounds (negative_width_objects 9)) \<and>
   \<not> intersects \<lparr>rx = 400, ry = 300, width = 400, height = 300\<rparr> (bounds (negative_width_objects 9)) \<and>
   \<not> intersects \<lparr>rx = 0, ry = 300, width = 400, height = 300\<rparr> (bounds (negative_width_objects 9))"
    by simp
  with a b c main_inserts show ?thesis by simp
qed

section \<open>Geometry\<close>

text \<open>
  C5. \<^verbatim>\<open>intersects\<close> is false exactly when the first rectangle lies strictly outside the
  second along an axis: strictly left of it, strictly above it, strictly right of it
  or strictly below it. So a rectangle whose right edge is the left edge of another of
  non-negative width intersects it as soon as their vertical extents meet, be it along
  an edge or in a single corner; \<open>{0,0,10,10}\<close> and \<open>{10,0,10,10}\<close> intersect. The test of
  \<^verbatim>\<open>insert\<close> against the boundary and both tests of \<^verbatim>\<open>query\<close> are this predicate, whatever the
  arithmetic: \<^verbatim>\<open>insert\<close> returns true exactly when the boundary intersects the bounds of the
  object, and \<^verbatim>\<open>query\<close> returns \<^verbatim>\<open>found\<close> followed by nothing when the boundary does not
  intersect the range, and else by the objects of the node whose bounds the range
  intersects, then by what the four children return.
\<close>

theorem intersects_inclusive_touch:
  fixes a b :: "'a::linordered_field Rect"
    and h :: "'b::{plus,ord,inverse,one} heap" and t :: "'b Quadtree"
  shows
  "(\<not> intersects a b \<longleftrightarrow>
      rx a + width a < rx b \<or> ry a + height a < ry b \<or>
      rx b + width b < rx a \<or> ry b + height b < ry a) \<and>
   (rx a + width a = rx b \<and> 0 \<le> width a \<and> 0 \<le> width b \<and>
    ry a \<le> ry b + height b \<and> ry b \<le> ry a + height a \<longrightarrow> intersects a b \<and> intersects b a) \<and>
   intersects \<lparr>rx = 0, ry = 0, width = 10, height = 10\<rparr>
     (\<lparr>rx = 10, ry = 0, width = 10, height = 10\<rparr> :: 'a Rect) \<and>
   (insert_qt h t p = Some (False, t) \<longleftrightarrow> \<not> intersects (boundary t) (bounds (h p))) \<and>
   (insert_qt h t p = Some (r, t') \<longrightarrow> (r \<longleftrightarrow> intersects (boundary t) (bounds (h p)))) \<and>
   query h t R found = found @ query h t R [] \<and>
   (\<not> intersects (boundary t) R \<longrightarrow> query h t R found = found) \<and>
   query h (Leaf bd c os) R [] =
     (if intersects bd R then filter (\<lambda>q. intersects R (bounds (h q))) os else []) \<and>
   query h (Divided bd c os c0 c1 c2 c3) R [] =
     (if intersects bd R
      then filter (\<lambda>q. intersects R (bounds (h q))) os @ query h c0 R [] @ query h c1 R []
             @ query h c2 R [] @ query h c3 R []
      else [])"
proof (intro conjI impI)
  show "\<not> intersects a b \<longleftrightarrow>
      rx a + width a < rx b \<or> ry a + height a < ry b \<or>
      rx b + width b < rx a \<or> ry b + height b < ry a"
    by (simp add: intersects_def)
next
  assume e: "rx a + width a = rx b \<and> 0 \<le> width a \<and> 0 \<le> width b \<and>
    ry a \<le> ry b + height b \<and> ry b \<le> ry a + height a"
  then have "rx a \<le> rx a + width a" and "rx b \<le> rx b + width b" by simp_all
  with e have "rx a \<le> rx b + width b" by simp
  with e show "intersects a b" by (simp add: intersects_def not_less)
  then show "intersects b a" by (simp add: intersects_commute)
next
  show "intersects \<lparr>rx = 0, ry = 0, width = 10, height = 10\<rparr>
     (\<lparr>rx = 10, ry = 0, width = 10, height = 10\<rparr> :: 'a Rect)"
    by (simp add: intersects_def)
next
  show "insert_qt h t p = Some (False, t) \<longleftrightarrow> \<not> intersects (boundary t) (bounds (h p))"
    using insert_qt_post [of h t p "(False, t)"] insert_qt_miss [of t h p] by auto
next
  assume "insert_qt h t p = Some (r, t')"
  from insert_qt_post [OF this] show "r \<longleftrightarrow> intersects (boundary t) (bounds (h p))" by simp
next
  show "query h t R found = found @ query h t R []" by (rule query_found)
next
  assume "\<not> intersects (boundary t) R"
  then show "query h t R found = found" by (rule query_pruned)
next
  show "query h (Leaf bd c os) R [] =
     (if intersects bd R then filter (\<lambda>q. intersects R (bounds (h q))) os else [])"
    by (simp add: query_objects_filter)
next
  show "query h (Divided bd c os c0 c1 c2 c3) R [] =
     (if intersects bd R
      then filter (\<lambda>q. intersects R (bounds (h q))) os @ query h c0 R [] @ query h c1 R []
             @ query h c2 R [] @ query h c3 R []
      else [])"
    unfolding query_Divided by simp
qed

theorem intersects_inclusive_touch_witness:
  "rx queryRange + width queryRange = rx (bounds (main_objects 7)) \<and>
   0 \<le> width queryRange \<and> 0 \<le> width (bounds (main_objects 7)) \<and>
   ry queryRange \<le> ry (bounds (main_objects 7)) + height (bounds (main_objects 7)) \<and>
   ry (bounds (main_objects 7)) \<le> ry queryRange + height queryRange \<and>
   intersects queryRange (bounds (main_objects 7)) \<and>
   intersects (bounds (main_objects 7)) queryRange \<and>
   insert_qt main_objects (child0 main_tree) 7 =
     Some (True, Leaf \<lparr>rx = 400, ry = 0, width = 400, height = 300\<rparr> 4 [7, 7]) \<and>
   intersects (boundary (child0 main_tree)) (bounds (main_objects 7)) \<and>
   \<not> intersects (boundary (child0 main_tree)) queryRange \<and>
   query main_objects (child0 main_tree) queryRange [] = []"
proof -
  have e: "rx queryRange + width queryRange = rx (bounds (main_objects 7)) \<and>
    0 \<le> width queryRange \<and> 0 \<le> width (bounds (main_objects 7)) \<and>
    ry queryRange \<le> ry (bounds (main_objects 7)) + height (bounds (main_objects 7)) \<and>
    ry (bounds (main_objects 7)) \<le> ry queryRange + height queryRange"
    by (simp add: queryRange_def main_objects_def)
  have n: "\<not> intersects (boundary (child0 main_tree)) queryRange"
    by (simp add: main_tree_def queryRange_def intersects_def)
  have i: "insert_qt main_objects (child0 main_tree) 7 =
     Some (True, Leaf \<lparr>rx = 400, ry = 0, width = 400, height = 300\<rparr> 4 [7, 7])"
    by (simp add: run_simps main_objects_def main_tree_def)
  from intersects_inclusive_touch [of queryRange "bounds (main_objects 7)" main_objects
      "child0 main_tree" 7 True "Leaf \<lparr>rx = 400, ry = 0, width = 400, height = 300\<rparr> 4 [7, 7]"
      queryRange "[]"] e n i
  show ?thesis by simp
qed

subsection \<open>Rounding\<close>

lemma binade_simps:
  "2 \<le> r \<Longrightarrow> binade (numeral k) r = binade (pred_numeral k) (r / 2) + 1"
  "1 \<le> r \<Longrightarrow> r < 2 \<Longrightarrow> binade (numeral k) r = 0"
  "r < 1 \<Longrightarrow> binade (numeral k) r = binade (pred_numeral k) (r * 2) - 1"
  by (simp_all add: numeral_eq_Suc)

lemma floor_rat_numeral: "\<lfloor>numeral a / numeral b :: rat\<rfloor> = numeral a div numeral b"
  using floor_divide_of_int_eq [of "numeral a" "numeral b", where ?'a = rat] by simp

lemmas round32_eval = round32_def binade_simps round_half_even_def power_int_minus Let_def
  floor_rat_numeral

lemma val_fl: "val (fl r) = round32 r"
  by (simp add: fl_def Abs_binary32_inverse)

text \<open>
  \<open>2^23 + 1/2\<close> lies halfway between the consecutive values \<open>2^23\<close> and \<open>2^23 + 1\<close>, and rounds
  to \<open>2^23\<close>, whose significand is even.
\<close>

lemma round32_values:
  "round32 0 = 0" "round32 1 = 1" "round32 2 = 2" "round32 (1 / 2) = 1 / 2"
  "round32 8388608 = 8388608" "round32 8388609 = 8388609"
  "round32 (16777217 / 2) = 8388608"
  by (simp_all add: round32_eval)

lemmas binary32_eval = plus_binary32_def less_eq_binary32_def less_binary32_def
  divide_binary32_def one_binary32_def val_fl round32_values

subsection \<open>Subdivision\<close>

text \<open>
  C6 does not hold in \<^verbatim>\<open>float\<close>. The node \<open>{2^23, 0, 1, 1}\<close> has the right edge \<open>2^23 + 1\<close>.
  \<^verbatim>\<open>subdivide\<close> computes \<^verbatim>\<open>subWidth\<close> \<open>= 1/2\<close> and \<^verbatim>\<open>x + subWidth\<close> \<open>= 2^23\<close> (rounded), so the four
  children start at \<open>x = 2^23\<close> and their right edge \<^verbatim>\<open>x + width\<close> is \<open>2^23\<close> again: the point
  \<open>(2^23 + 1, 0)\<close> is in the parent and in none of the children.
\<close>

theorem subdivide_float_gap:
  "contains (boundary unit_node) (fl 8388609) (fl 0) \<and>
   \<not> contains (boundary (child0 (subdivide unit_node))) (fl 8388609) (fl 0) \<and>
   \<not> contains (boundary (child1 (subdivide unit_node))) (fl 8388609) (fl 0) \<and>
   \<not> contains (boundary (child2 (subdivide unit_node))) (fl 8388609) (fl 0) \<and>
   \<not> contains (boundary (child3 (subdivide unit_node))) (fl 8388609) (fl 0)"
  by (simp add: unit_node_def new_Quadtree_def subdivide_def Let_def contains_def binary32_eval)

text \<open>
  For the same reason a well-formed object on the right edge of that node intersects
  its boundary and the boundary of none of its children: once the node is divided,
  \<^verbatim>\<open>insert\<close> appends every such object to the direct list of the node.
\<close>

lemma unit_node_fallback:
  "val (fl 0) \<le> val (width (bounds (edge_objects 1))) \<and>
   val (fl 0) \<le> val (height (bounds (edge_objects 1))) \<and>
   insert_all edge_objects (subdivide unit_node) [1, 2, 3, 4, 5] =
     Some (Divided (boundary unit_node) 4 [1, 2, 3, 4, 5]
       (child0 (subdivide unit_node)) (child1 (subdivide unit_node))
       (child2 (subdivide unit_node)) (child3 (subdivide unit_node)))"
proof -
  have "round32 8388610 = 8388610"
    by (simp add: round32_eval)
  then have "insert_all edge_objects (Divided (boundary unit_node) 4 []
       (child0 (subdivide unit_node)) (child1 (subdivide unit_node))
       (child2 (subdivide unit_node)) (child3 (subdivide unit_node))) [1, 2, 3, 4, 5] =
     Some (Divided (boundary unit_node) 4 ([] @ [1, 2, 3, 4, 5])
       (child0 (subdivide unit_node)) (child1 (subdivide unit_node))
       (child2 (subdivide unit_node)) (child3 (subdivide unit_node)))"
    by (intro insert_all_fallback)
      (simp add: unit_node_def new_Quadtree_def subdivide_def Let_def intersects_def
        edge_objects_def binary32_eval)
  moreover have "subdivide unit_node = Divided (boundary unit_node) 4 []
       (child0 (subdivide unit_node)) (child1 (subdivide unit_node))
       (child2 (subdivide unit_node)) (child3 (subdivide unit_node))"
    by (simp add: unit_node_def new_Quadtree_def subdivide_def Let_def)
  moreover have "val (fl 0) \<le> val (width (bounds (edge_objects 1)))"
    "val (fl 0) \<le> val (height (bounds (edge_objects 1)))"
    by (simp_all add: edge_objects_def binary32_eval)
  ultimately show ?thesis by simp
qed

text \<open>
  C6, amended. \<^verbatim>\<open>subdivide\<close> makes four new nodes of the capacity of the parent, each of half
  its width and half its height. In exact arithmetic the four boundaries tile the
  boundary of the parent: a point is in the parent exactly when it is in one of the four
  (no gap, nothing outside), and a point that is in two of them lies on the vertical or
  the horizontal line that cuts the parent in halves, so two children have only an edge
  or the centre in common (\<^verbatim>\<open>contains\<close> includes the edges, so adjacent children do share
  their common edge).
\<close>

theorem subdivide_quadrants:
  fixes t :: "'a::linordered_field Quadtree"
  shows
  "let s = subdivide t; b = boundary t;
       xm = rx b + width b / 2; ym = ry b + height b / 2;
       b0 = boundary (child0 s); b1 = boundary (child1 s);
       b2 = boundary (child2 s); b3 = boundary (child3 s)
   in s = Divided b (capacity t) (objects t)
            (new_Quadtree b0 (capacity t)) (new_Quadtree b1 (capacity t))
            (new_Quadtree b2 (capacity t)) (new_Quadtree b3 (capacity t)) \<and>
      (\<forall>k \<in> {b0, b1, b2, b3}. width k = width b / 2 \<and> height k = height b / 2) \<and>
      (\<forall>px py. contains b px py \<longleftrightarrow>
         contains b0 px py \<or> contains b1 px py \<or> contains b2 px py \<or> contains b3 px py) \<and>
      (\<forall>px py.
         (contains b0 px py \<and> contains b1 px py \<longrightarrow> px = xm) \<and>
         (contains b0 px py \<and> contains b2 px py \<longrightarrow> py = ym) \<and>
         (contains b0 px py \<and> contains b3 px py \<longrightarrow> px = xm \<and> py = ym) \<and>
         (contains b1 px py \<and> contains b2 px py \<longrightarrow> px = xm \<and> py = ym) \<and>
         (contains b1 px py \<and> contains b3 px py \<longrightarrow> py = ym) \<and>
         (contains b2 px py \<and> contains b3 px py \<longrightarrow> px = xm))"
proof -
  define x y w g where "x = rx (boundary t)" and "y = ry (boundary t)"
    and "w = width (boundary t)" and "g = height (boundary t)"
  have two: "(1 + 1 :: 'a) = 2" by simp
  have halves: "x + w / 2 + w / 2 = x + w" "y + g / 2 + g / 2 = y + g" by simp_all
  have s: "subdivide t = Divided (boundary t) (capacity t) (objects t)
      (new_Quadtree \<lparr>rx = x + w / 2, ry = y, width = w / 2, height = g / 2\<rparr> (capacity t))
      (new_Quadtree \<lparr>rx = x, ry = y, width = w / 2, height = g / 2\<rparr> (capacity t))
      (new_Quadtree \<lparr>rx = x + w / 2, ry = y + g / 2, width = w / 2, height = g / 2\<rparr> (capacity t))
      (new_Quadtree \<lparr>rx = x, ry = y + g / 2, width = w / 2, height = g / 2\<rparr> (capacity t))"
    by (simp add: subdivide_def Let_def two x_def y_def w_def g_def)
  have par: "contains (boundary t) px py \<longleftrightarrow> x \<le> px \<and> px \<le> x + w \<and> y \<le> py \<and> py \<le> y + g"
    for px py by (simp add: contains_def x_def y_def w_def g_def)
  have X: "x \<le> px \<and> px \<le> x + w \<longleftrightarrow>
      (x \<le> px \<and> px \<le> x + w / 2) \<or> (x + w / 2 \<le> px \<and> px \<le> x + w / 2 + w / 2)" for px
    unfolding halves by (cases "px \<le> x + w / 2") auto
  have Y: "y \<le> py \<and> py \<le> y + g \<longleftrightarrow>
      (y \<le> py \<and> py \<le> y + g / 2) \<or> (y + g / 2 \<le> py \<and> py \<le> y + g / 2 + g / 2)" for py
    unfolding halves by (cases "py \<le> y + g / 2") auto
  have cover: "contains (boundary t) px py \<longleftrightarrow>
      contains \<lparr>rx = x + w / 2, ry = y, width = w / 2, height = g / 2\<rparr> px py \<or>
      contains \<lparr>rx = x, ry = y, width = w / 2, height = g / 2\<rparr> px py \<or>
      contains \<lparr>rx = x + w / 2, ry = y + g / 2, width = w / 2, height = g / 2\<rparr> px py \<or>
      contains \<lparr>rx = x, ry = y + g / 2, width = w / 2, height = g / 2\<rparr> px py" for px py
    unfolding par using X [of px] Y [of py] by (simp add: contains_def) blast
  show ?thesis
    unfolding Let_def s
    apply (simp only: Quadtree.sel new_Quadtree_def)
    apply (intro conjI allI ballI impI)
    apply (simp_all add: cover [unfolded x_def y_def w_def g_def] x_def [symmetric] y_def [symmetric] w_def [symmetric] g_def [symmetric])
    apply (auto simp: contains_def)
    done
qed

theorem subdivide_quadrants_witness:
  "subdivide (new_Quadtree worldBoundary 4) = Divided worldBoundary 4 []
      (new_Quadtree \<lparr>rx = 400, ry = 0, width = 400, height = 300\<rparr> 4)
      (new_Quadtree \<lparr>rx = 0, ry = 0, width = 400, height = 300\<rparr> 4)
      (new_Quadtree \<lparr>rx = 400, ry = 300, width = 400, height = 300\<rparr> 4)
      (new_Quadtree \<lparr>rx = 0, ry = 300, width = 400, height = 300\<rparr> 4) \<and>
   contains worldBoundary 100 100 \<and>
   contains (boundary (child1 (subdivide (new_Quadtree worldBoundary 4)))) 100 100 \<and>
   contains (boundary (child0 (subdivide (new_Quadtree worldBoundary 4)))) 400 100 \<and>
   contains (boundary (child1 (subdivide (new_Quadtree worldBoundary 4)))) 400 100 \<and>
   (400 :: rat) = rx worldBoundary + width worldBoundary / 2"
proof -
  have b: "boundary (child0 (subdivide (new_Quadtree worldBoundary 4))) =
        \<lparr>rx = 400, ry = 0, width = 400, height = 300\<rparr>"
     "boundary (child1 (subdivide (new_Quadtree worldBoundary 4))) =
        \<lparr>rx = 0, ry = 0, width = 400, height = 300\<rparr>"
     "boundary (child2 (subdivide (new_Quadtree worldBoundary 4))) =
        \<lparr>rx = 400, ry = 300, width = 400, height = 300\<rparr>"
     "boundary (child3 (subdivide (new_Quadtree worldBoundary 4))) =
        \<lparr>rx = 0, ry = 300, width = 400, height = 300\<rparr>"
    by (simp_all add: subdivide_def Let_def new_Quadtree_def worldBoundary_def)
  have c: "contains \<lparr>rx = 400, ry = 0, width = 400, height = 300\<rparr> (400 :: rat) 100"
    "contains \<lparr>rx = 0, ry = 0, width = 400, height = 300\<rparr> (400 :: rat) 100"
    "contains \<lparr>rx = 0, ry = 0, width = 400, height = 300\<rparr> (100 :: rat) 100"
    by (simp_all add: contains_def)
  from subdivide_quadrants [of "new_Quadtree worldBoundary 4", unfolded Let_def b,
      THEN conjunct1]
  have 1: "subdivide (new_Quadtree worldBoundary 4) = Divided worldBoundary 4 []
      (new_Quadtree \<lparr>rx = 400, ry = 0, width = 400, height = 300\<rparr> 4)
      (new_Quadtree \<lparr>rx = 0, ry = 0, width = 400, height = 300\<rparr> 4)
      (new_Quadtree \<lparr>rx = 400, ry = 300, width = 400, height = 300\<rparr> 4)
      (new_Quadtree \<lparr>rx = 0, ry = 300, width = 400, height = 300\<rparr> 4)"
    by (simp add: new_Quadtree_def)
  from subdivide_quadrants [of "new_Quadtree worldBoundary 4", unfolded Let_def b,
      THEN conjunct2, THEN conjunct2, THEN conjunct1, rule_format, of 100 100] c
  have 2: "contains worldBoundary 100 100"
    by (simp add: new_Quadtree_def)
  from subdivide_quadrants [of "new_Quadtree worldBoundary 4", unfolded Let_def b,
      THEN conjunct2, THEN conjunct2, THEN conjunct2, rule_format, of 400 100,
      THEN conjunct1] c
  have 3: "(400 :: rat) = rx worldBoundary + width worldBoundary / 2"
    by (simp add: new_Quadtree_def)
  from 1 2 3 c show ?thesis unfolding b by simp
qed

end
